theory Spec2Isabelle
  imports Main "HOL-Library.AList" "HOL-Library.Sublist"
begin

section \<open>Unboxing a template: packages/box/lib/utils/unbox.ts\<close>

text \<open>
  The embedding follows \<^verbatim>\<open>src/packages/box/lib/utils/unbox.ts\<close>. The file system is a
  tree of files and directories; the calls of \<^verbatim>\<open>fs-extra\<close>, of Node's \<^verbatim>\<open>path\<close> and of
  \<^verbatim>\<open>inquirer\<close> are external to the repository and are modelled here by what they do
  on such a tree (POSIX behaviour). Symbolic links, permissions and time stamps are not
  part of the model. Every function that touches the file system or the terminal takes
  the \<open>world\<close> and returns it, together with the error it threw, if any: a throw keeps
  the changes made before it, as on a real disk.
\<close>

subsection \<open>Paths\<close>

text \<open>
  A directory handed in by the caller (\<^verbatim>\<open>destination\<close>, \<^verbatim>\<open>tmpDir\<close>, the working directory)
  is an absolute path, kept as the list of its components. The paths of a recipe and the
  relative paths that \<^verbatim>\<open>traverseDir\<close> returns are strings, as in the source, because the
  source compares them as strings.
\<close>

type_synonym path = "string list"

text \<open>\<^verbatim>\<open>String.prototype.split\<close> with a separator of one character.\<close>

fun split_on :: "char \<Rightarrow> string \<Rightarrow> string list" where
  "split_on sep [] = [[]]"
| "split_on sep (c # cs) =
     (if c = sep then [] # split_on sep cs
      else (case split_on sep cs of [] \<Rightarrow> [[c]] | w # ws \<Rightarrow> (c # w) # ws))"

text \<open>
  \<^verbatim>\<open>path.join(dir, s)\<close> for a directory \<open>dir\<close> and a string \<open>s\<close>, read as the file the
  operating system then reaches: empty segments and \<^verbatim>\<open>.\<close> are dropped, \<^verbatim>\<open>..\<close> steps to the
  parent (the parent of the root is the root). A trailing slash of \<open>s\<close> is dropped.
\<close>

definition resolve_step :: "path \<Rightarrow> string \<Rightarrow> path" where
  "resolve_step st c =
     (if c = [] \<or> c = ''.'' then st else if c = ''..'' then butlast st else st @ [c])"

definition path_resolve :: "path \<Rightarrow> string \<Rightarrow> path" where
  "path_resolve dir s = foldl resolve_step dir (split_on CHR ''/'' s)"

text \<open>
  \<^verbatim>\<open>path.join(relativeDir, file)\<close> as \<^verbatim>\<open>traverseDir\<close> calls it: \<open>file\<close> is a name read from
  a directory, and \<open>relativeDir\<close> is empty or a path built by this function.
\<close>

definition path_join :: "string \<Rightarrow> string \<Rightarrow> string" where
  "path_join relativeDir file = (if relativeDir = [] then file else relativeDir @ ''/'' @ file)"

text \<open>
  The relative path, as a string, of the file reached through the names \<open>q\<close>: the string
  \<^verbatim>\<open>traverseDir\<close> builds for it.
\<close>

definition relative :: "path \<Rightarrow> string" where
  "relative q = foldl path_join [] q"

text \<open>\<^verbatim>\<open>path.dirname\<close> of an absolute path.\<close>

definition dirname :: "path \<Rightarrow> path" where
  "dirname p = butlast p"

text \<open>The names a directory can hold.\<close>

definition valid_name :: "string \<Rightarrow> bool" where
  "valid_name f = (f \<noteq> [] \<and> CHR ''/'' \<notin> set f \<and> f \<noteq> ''.'' \<and> f \<noteq> ''..'')"

subsection \<open>The file system tree\<close>

text \<open>
  A directory lists its entries in the order \<^verbatim>\<open>readdirSync\<close> returns them. A tree is
  well formed when no directory lists a name twice and every name is a valid file name.
\<close>

datatype node = File string | Dir "(string \<times> node) list"

fun wf_node :: "node \<Rightarrow> bool"
and wf_entries :: "(string \<times> node) list \<Rightarrow> bool" where
  "wf_node (File c) = True"
| "wf_node (Dir es) = (distinct (map fst es) \<and> wf_entries es)"
| "wf_entries [] = True"
| "wf_entries ((f, n) # es) = (valid_name f \<and> wf_node n \<and> wf_entries es)"

fun lookup :: "node \<Rightarrow> path \<Rightarrow> node option" where
  "lookup n [] = Some n"
| "lookup (File c) (x # p) = None"
| "lookup (Dir es) (x # p) = (case map_of es x of None \<Rightarrow> None | Some m \<Rightarrow> lookup m p)"

text \<open>
  \<open>alter p f t\<close> replaces what stands at \<open>p\<close> (nothing, or a node) by \<open>f\<close> of it, when the
  parent of \<open>p\<close> is a directory of \<open>t\<close>; otherwise \<open>t\<close> is unchanged. The root itself can
  be replaced but not deleted.
\<close>

fun alter :: "path \<Rightarrow> (node option \<Rightarrow> node option) \<Rightarrow> node \<Rightarrow> node" where
  "alter [] f n = (case f (Some n) of None \<Rightarrow> n | Some n' \<Rightarrow> n')"
| "alter (x # p) f (File c) = File c"
| "alter [x] f (Dir es) =
     (case f (map_of es x) of
        None \<Rightarrow> Dir (AList.delete x es)
      | Some n \<Rightarrow> Dir (AList.update x n es))"
| "alter (x # y # p) f (Dir es) =
     (case map_of es x of
        None \<Rightarrow> Dir es
      | Some m \<Rightarrow> Dir (AList.update x (alter (y # p) f m) es))"

definition remove_at :: "path \<Rightarrow> node \<Rightarrow> node" where
  "remove_at p t = alter p (\<lambda>_. None) t"

definition put :: "path \<Rightarrow> node \<Rightarrow> node \<Rightarrow> node" where
  "put p n t = alter p (\<lambda>_. Some n) t"

datatype error =
  ENOENT | ENOTDIR | EISDIR | ENOTEMPTY | EEXIST | EINVAL | TypeError | PromptAborted

text \<open>
  \<^verbatim>\<open>mkdir -p\<close>: every missing directory on the way to \<open>p\<close> is created; a file on the way
  is an error, and then nothing has been created.
\<close>

fun mkdirs :: "path \<Rightarrow> node \<Rightarrow> error + node" where
  "mkdirs [] (Dir es) = Inr (Dir es)"
| "mkdirs [] (File c) = Inl EEXIST"
| "mkdirs (x # p) (File c) = Inl ENOTDIR"
| "mkdirs (x # p) (Dir es) =
     (case mkdirs p (case map_of es x of None \<Rightarrow> Dir [] | Some m \<Rightarrow> m) of
        Inl e \<Rightarrow> Inl e
      | Inr m' \<Rightarrow> Inr (Dir (AList.update x m' es)))"

text \<open>
  \<^verbatim>\<open>rename(2)\<close>: \<open>rename_node a b t\<close> moves the node at \<open>a\<close> to \<open>b\<close>. It replaces a file by
  a file and an empty directory by a directory, and fails without any change otherwise.
\<close>

definition rename_node :: "path \<Rightarrow> path \<Rightarrow> node \<Rightarrow> error + node" where
  "rename_node a b t =
     (case lookup t a of
        None \<Rightarrow> Inl ENOENT
      | Some src \<Rightarrow>
          if a = b then Inr t
          else if prefix a b then Inl EINVAL
          else (case lookup t (butlast b) of
                  None \<Rightarrow> Inl ENOENT
                | Some (File c) \<Rightarrow> Inl ENOTDIR
                | Some (Dir ps) \<Rightarrow>
                    (case (src, lookup t b) of
                       (_, None) \<Rightarrow> Inr (put b src (remove_at a t))
                     | (File c, Some (File d)) \<Rightarrow> Inr (put b src (remove_at a t))
                     | (File c, Some (Dir ds)) \<Rightarrow> Inl EISDIR
                     | (Dir es, Some (File d)) \<Rightarrow> Inl ENOTDIR
                     | (Dir es, Some (Dir ds)) \<Rightarrow>
                         if ds = [] then Inr (put b src (remove_at a t)) else Inl ENOTEMPTY)))"

text \<open>
  \<^verbatim>\<open>fse.copySync\<close> with its default options (overwrite): a file replaces a file, a
  directory is merged into a directory item by item, and a file never replaces a
  directory nor a directory a file. \<open>copy_node src dst\<close> is the status and what stands
  at the destination afterwards, \<open>dst\<close> being what stood there before; the items copied
  before an error stay copied.
\<close>

fun copy_node :: "node \<Rightarrow> node option \<Rightarrow> error option \<times> node"
and copy_items :: "(string \<times> node) list \<Rightarrow> (string \<times> node) list \<Rightarrow> error option \<times> (string \<times> node) list" where
  "copy_node (File c) None = (None, File c)"
| "copy_node (File c) (Some (File d)) = (None, File c)"
| "copy_node (File c) (Some (Dir ds)) = (Some EISDIR, Dir ds)"
| "copy_node (Dir es) None = (case copy_items es [] of (st, ds') \<Rightarrow> (st, Dir ds'))"
| "copy_node (Dir es) (Some (File d)) = (Some ENOTDIR, File d)"
| "copy_node (Dir es) (Some (Dir ds)) = (case copy_items es ds of (st, ds') \<Rightarrow> (st, Dir ds'))"
| "copy_items [] ds = (None, ds)"
| "copy_items ((item, x) # es) ds =
     (case copy_node x (map_of ds item) of
        (Some e, x') \<Rightarrow> (Some e, AList.update item x' ds)
      | (None, x') \<Rightarrow> copy_items es (AList.update item x' ds))"

subsection \<open>The world: file system, working directory, terminal\<close>

text \<open>
  \<open>calls\<close> records every call that changes the file system, in order; \<open>asked\<close> records
  every prompt shown. The user is the two lists of answers still to come, one for
  \<^verbatim>\<open>list\<close> prompts and one for \<^verbatim>\<open>confirm\<close> prompts.
\<close>

datatype fs_call =
  RemoveSync path | RmdirSync path | EnsureDirSync path | RenameSync path path
| CopySync path path

datatype prompt = ListPrompt string "string list" | ConfirmPrompt string

record world =
  root :: node
  cwd :: path
  calls :: "fs_call list"
  asked :: "prompt list"
  listAnswers :: "string list"
  confirmAnswers :: "bool list"

text \<open>\<^verbatim>\<open>fse.readdirSync\<close>.\<close>

definition readdirSync :: "path \<Rightarrow> world \<Rightarrow> error + string list" where
  "readdirSync dir w =
     (case lookup (root w) dir of
        None \<Rightarrow> Inl ENOENT
      | Some (File c) \<Rightarrow> Inl ENOTDIR
      | Some (Dir es) \<Rightarrow> Inr (map fst es))"

text \<open>\<^verbatim>\<open>fse.removeSync\<close>: deletes a file or a whole directory; a missing path is no error.\<close>

definition removeSync :: "path \<Rightarrow> world \<Rightarrow> world" where
  "removeSync p w = w\<lparr>root := remove_at p (root w), calls := calls w @ [RemoveSync p]\<rparr>"

text \<open>\<^verbatim>\<open>fse.ensureDirSync\<close>.\<close>

definition ensureDirSync :: "path \<Rightarrow> world \<Rightarrow> error option \<times> world" where
  "ensureDirSync p w =
     (case mkdirs p (root w) of
        Inl e \<Rightarrow> (Some e, w)
      | Inr t \<Rightarrow> (None, w\<lparr>root := t, calls := calls w @ [EnsureDirSync p]\<rparr>))"

text \<open>\<^verbatim>\<open>fse.renameSync\<close>.\<close>

definition renameSync :: "path \<Rightarrow> path \<Rightarrow> world \<Rightarrow> error option \<times> world" where
  "renameSync a b w =
     (case rename_node a b (root w) of
        Inl e \<Rightarrow> (Some e, w)
      | Inr t \<Rightarrow> (None, w\<lparr>root := t, calls := calls w @ [RenameSync a b]\<rparr>))"

text \<open>
  \<^verbatim>\<open>fse.copySync(src, dest)\<close>: the source must exist, must not be the destination nor a
  directory that contains it; the parent of the destination is created when missing.
\<close>

definition copySync :: "path \<Rightarrow> path \<Rightarrow> world \<Rightarrow> error option \<times> world" where
  "copySync src dest w =
     (case lookup (root w) src of
        None \<Rightarrow> (Some ENOENT, w)
      | Some s \<Rightarrow>
          if prefix src dest then (Some EINVAL, w)
          else (case mkdirs (butlast dest) (root w) of
                  Inl e \<Rightarrow> (Some e, w)
                | Inr t \<Rightarrow>
                    (case copy_node s (lookup t dest) of
                       (st, n') \<Rightarrow>
                         (st, w\<lparr>root := put dest n' t, calls := calls w @ [CopySync src dest]\<rparr>))))"

text \<open>
  \<^verbatim>\<open>inquirer.prompt\<close> with one question that is shown. A \<^verbatim>\<open>list\<close> prompt returns one of
  its choices; a user who gives no such answer has aborted the prompt.
\<close>

definition inquirer_list :: "string \<Rightarrow> string list \<Rightarrow> world \<Rightarrow> (error + string) \<times> world" where
  "inquirer_list message choices w =
     (let w' = w\<lparr>asked := asked w @ [ListPrompt message choices]\<rparr>
      in case listAnswers w of
           [] \<Rightarrow> (Inl PromptAborted, w')
         | a # rest \<Rightarrow>
             if a \<in> set choices then (Inr a, w'\<lparr>listAnswers := rest\<rparr>)
             else (Inl PromptAborted, w'\<lparr>listAnswers := rest\<rparr>))"

definition inquirer_confirm :: "string \<Rightarrow> world \<Rightarrow> (error + bool) \<times> world" where
  "inquirer_confirm message w =
     (let w' = w\<lparr>asked := asked w @ [ConfirmPrompt message]\<rparr>
      in case confirmAnswers w of
           [] \<Rightarrow> (Inl PromptAborted, w')
         | a # rest \<Rightarrow> (Inr a, w'\<lparr>confirmAnswers := rest\<rparr>))"

subsection \<open>promptOverwrites and copyTempIntoDestination (lines 88 to 144)\<close>

text \<open>
  The loop of \<^verbatim>\<open>promptOverwrites\<close>, with \<open>overwriteContents\<close> as it stands so far. The
  source calls \<^verbatim>\<open>fse.removeSync(file)\<close> on the bare entry name, which Node resolves
  against the working directory of the process.
\<close>

fun promptOverwrites_loop ::
  "string list \<Rightarrow> string list \<Rightarrow> world \<Rightarrow> (error + string list) \<times> world" where
  "promptOverwrites_loop [] overwriteContents w = (Inr overwriteContents, w)"
| "promptOverwrites_loop (file # rest) overwriteContents w =
     (case inquirer_confirm (''Overwrite '' @ file @ ''?'') w of
        (Inl e, w1) \<Rightarrow> (Inl e, w1)
      | (Inr overwrite, w1) \<Rightarrow>
          if overwrite
          then promptOverwrites_loop rest (overwriteContents @ [file])
                 (removeSync (cwd w1 @ [file]) w1)
          else promptOverwrites_loop rest overwriteContents w1)"

definition promptOverwrites :: "string list \<Rightarrow> world \<Rightarrow> (error + string list) \<times> world" where
  "promptOverwrites contentCollisions w = promptOverwrites_loop contentCollisions [] w"

text \<open>The loop of lines 141 to 143.\<close>

fun copyFiles :: "path \<Rightarrow> path \<Rightarrow> string list \<Rightarrow> world \<Rightarrow> error option \<times> world" where
  "copyFiles tmpDir destination [] w = (None, w)"
| "copyFiles tmpDir destination (file # rest) w =
     (case copySync (tmpDir @ [file]) (destination @ [file]) w of
        (Some e, w1) \<Rightarrow> (Some e, w1)
      | (None, w1) \<Rightarrow> copyFiles tmpDir destination rest w1)"

definition copyTempIntoDestination :: "path \<Rightarrow> path \<Rightarrow> bool \<Rightarrow> world \<Rightarrow> error option \<times> world" where
  "copyTempIntoDestination tmpDir destination force w =
     (case ensureDirSync destination w of
        (Some e, w1) \<Rightarrow> (Some e, w1)
      | (None, w1) \<Rightarrow>
          (case readdirSync tmpDir w1 of
             Inl e \<Rightarrow> (Some e, w1)
           | Inr boxContents \<Rightarrow>
               (case readdirSync destination w1 of
                  Inl e \<Rightarrow> (Some e, w1)
                | Inr destinationContents \<Rightarrow>
                    (let newContents =
                           filter (\<lambda>filename. filename \<notin> set destinationContents) boxContents;
                         contentCollisions =
                           filter (\<lambda>filename. filename \<in> set destinationContents) boxContents
                     in if force then copyFiles tmpDir destination boxContents w1
                        else (case promptOverwrites contentCollisions w1 of
                                (Inl e, w2) \<Rightarrow> (Some e, w2)
                              | (Inr overwriteContents, w2) \<Rightarrow>
                                  copyFiles tmpDir destination
                                    (newContents @ overwriteContents) w2)))))"

text \<open>
  The entries a user accepts to overwrite: the collisions, in order, whose confirm answer
  is positive.
\<close>

definition accepted :: "string list \<Rightarrow> bool list \<Rightarrow> string list" where
  "accepted contentCollisions answers = map fst (filter snd (zip contentCollisions answers))"

subsection \<open>traverseDir (lines 160 to 182)\<close>

text \<open>
  The files below a directory, as paths relative to it, in listing order. The model is
  the mode \<^verbatim>\<open>returnRelative = true\<close>, the only one \<^verbatim>\<open>followBoxRecipe\<close> uses.
  \<open>traverseDir_entries relativeDir es\<close> is the \<^verbatim>\<open>forEach\<close> over the entries \<open>es\<close> that
  \<^verbatim>\<open>readdirSync(dir)\<close> lists.
\<close>

fun traverseDir_entries :: "string \<Rightarrow> (string \<times> node) list \<Rightarrow> string list" where
  "traverseDir_entries relativeDir [] = []"
| "traverseDir_entries relativeDir ((file, File c) # es) =
     path_join relativeDir file # traverseDir_entries relativeDir es"
| "traverseDir_entries relativeDir ((file, Dir sub) # es) =
     traverseDir_entries (path_join relativeDir file) sub @ traverseDir_entries relativeDir es"

definition traverseDir :: "path \<Rightarrow> world \<Rightarrow> error + string list" where
  "traverseDir dir w =
     (case lookup (root w) dir of
        None \<Rightarrow> Inl ENOENT
      | Some (File c) \<Rightarrow> Inl ENOTDIR
      | Some (Dir es) \<Rightarrow> Inr (traverseDir_entries [] es))"

subsection \<open>removeEmptyDirs (lines 188 to 208)\<close>

text \<open>
  \<open>removeEmptyDirs_node dir isRoot n\<close> is the call \<^verbatim>\<open>removeEmptyDirs(dir, isRoot)\<close> when \<open>n\<close>
  stands at \<open>dir\<close>: what stands there afterwards (\<open>None\<close> when \<^verbatim>\<open>rmdirSync\<close> removed it) and
  the \<^verbatim>\<open>rmdirSync\<close> calls made, in order. \<open>removeEmptyDirs_each\<close> is the \<^verbatim>\<open>forEach\<close> over
  the entries and gives the entries that \<^verbatim>\<open>readdirSync\<close> lists afterwards.
\<close>

fun removeEmptyDirs_node :: "path \<Rightarrow> bool \<Rightarrow> node \<Rightarrow> node option \<times> fs_call list"
and removeEmptyDirs_each ::
  "path \<Rightarrow> (string \<times> node) list \<Rightarrow> (string \<times> node) list \<times> fs_call list" where
  "removeEmptyDirs_node dir isRoot (File c) = (Some (File c), [])"
| "removeEmptyDirs_node dir isRoot (Dir files) =
     (case (if files \<noteq> [] then removeEmptyDirs_each dir files else (files, [])) of
        (files', l) \<Rightarrow>
          if files' = [] \<and> \<not> isRoot then (None, l @ [RmdirSync dir])
          else (Some (Dir files'), l))"
| "removeEmptyDirs_each dir [] = ([], [])"
| "removeEmptyDirs_each dir ((file, n) # rest) =
     (case removeEmptyDirs_node (dir @ [file]) False n of
        (r, l1) \<Rightarrow>
          (case removeEmptyDirs_each dir rest of
             (rest', l2) \<Rightarrow>
               ((case r of None \<Rightarrow> rest' | Some n' \<Rightarrow> (file, n') # rest'), l1 @ l2)))"

definition removeEmptyDirs :: "path \<Rightarrow> bool \<Rightarrow> world \<Rightarrow> error option \<times> world" where
  "removeEmptyDirs dir isRoot w =
     (case lookup (root w) dir of
        None \<Rightarrow> (Some ENOENT, w)
      | Some n \<Rightarrow>
          (case removeEmptyDirs_node dir isRoot n of
             (None, l) \<Rightarrow> (None, w\<lparr>root := remove_at dir (root w), calls := calls w @ l\<rparr>)
           | (Some n', l) \<Rightarrow> (None, w\<lparr>root := put dir n' (root w), calls := calls w @ l\<rparr>)))"

text \<open>
  Every directory among the entries \<open>es\<close>, and every directory below them, lists at least
  one entry.
\<close>

fun entries_nonempty :: "(string \<times> node) list \<Rightarrow> bool" where
  "entries_nonempty [] = True"
| "entries_nonempty ((f, File c) # es) = entries_nonempty es"
| "entries_nonempty ((f, Dir sub) # es) =
     (sub \<noteq> [] \<and> entries_nonempty sub \<and> entries_nonempty es)"

subsection \<open>followBoxRecipe (lines 210 to 292)\<close>

text \<open>
  Modelled from the spec: the types \<^verbatim>\<open>boxConfig\<close> and \<^verbatim>\<open>boxConfigRecipeSpecMv\<close> are
  imported from \<^verbatim>\<open>typings\<close>, which is not among the sources. A file specification is a
  path or a move \<^verbatim>\<open>{from, to}\<close>; a scope is a list of file specifications or an object
  from choice labels to scopes; \<^verbatim>\<open>recipes\<close> has the fields \<^verbatim>\<open>specs\<close>, \<^verbatim>\<open>common\<close> and
  \<^verbatim>\<open>prompts\<close> (the messages, by depth), each of which may be missing: the empty object has
  none of them.
\<close>

record boxConfigRecipeSpecMv =
  mvFrom :: string
  mvTo :: string

datatype filespec = Plain string | Mv boxConfigRecipeSpecMv

datatype scope = Files "filespec list" | Choices "(string \<times> scope) list"

record recipes =
  specs :: "scope option"
  common :: "filespec list option"
  prompts :: "string list option"

text \<open>\<^verbatim>\<open>Object.keys(recipes).length\<close>.\<close>

definition recipes_keys :: "recipes \<Rightarrow> nat" where
  "recipes_keys r =
     (if specs r = None then 0 else 1) + (if common r = None then 0 else 1)
     + (if prompts r = None then 0 else 1)"

text \<open>Reading an array at an index: \<open>None\<close> is \<^verbatim>\<open>undefined\<close>.\<close>

fun nth_opt :: "'a list \<Rightarrow> nat \<Rightarrow> 'a option" where
  "nth_opt [] n = None"
| "nth_opt (x # xs) 0 = Some x"
| "nth_opt (x # xs) (Suc n) = nth_opt xs n"

text \<open>
  The loop of lines 226 to 258, which locates the recipe. \<open>recipeScope\<close> is \<open>None\<close> when it
  is \<^verbatim>\<open>undefined\<close>, and \<^verbatim>\<open>Object.keys\<close> then throws. The message
  \<^verbatim>\<open>recipes.prompts[counter].message\<close> is read before \<^verbatim>\<open>inquirer.prompt\<close> is called, whether
  or not the prompt is shown. The \<^verbatim>\<open>when\<close> callback accepts the option at \<open>counter\<close> if
  options are still in use and it is one of the choices; otherwise options are given up
  for good and the prompt is shown. On reaching a list of files the result is that list
  followed by \<^verbatim>\<open>recipes.common\<close>; a missing \<^verbatim>\<open>common\<close> makes line 269 throw before anything
  else happens.
\<close>

fun scope_measure :: "scope option \<Rightarrow> nat" where
  "scope_measure None = 0"
| "scope_measure (Some s) = Suc (size s)"

lemma scope_measure_map_of:
  "scope_measure (map_of cs k) < scope_measure (Some (Choices cs))"
  by (induction cs) (auto split: if_splits)

function locateRecipe ::
  "recipes \<Rightarrow> string list \<Rightarrow> bool \<Rightarrow> scope option \<Rightarrow> nat \<Rightarrow> world
     \<Rightarrow> (error + filespec list) \<times> world" where
  "locateRecipe r optionArr useOption recipeScope counter w =
     (case recipeScope of
        None \<Rightarrow> (Inl TypeError, w)
      | Some (Files fs) \<Rightarrow>
          (case common r of None \<Rightarrow> (Inl TypeError, w) | Some c \<Rightarrow> (Inr (fs @ c), w))
      | Some (Choices cs) \<Rightarrow>
          (let curScopeChoices = map fst cs
           in case (case prompts r of None \<Rightarrow> None | Some ps \<Rightarrow> nth_opt ps counter) of
                None \<Rightarrow> (Inl TypeError, w)
              | Some message \<Rightarrow>
                  (case (if useOption
                         then (case nth_opt optionArr counter of
                                 None \<Rightarrow> None
                               | Some curOptionChoice \<Rightarrow>
                                   if curOptionChoice \<in> set curScopeChoices
                                   then Some curOptionChoice else None)
                         else None) of
                     Some choice \<Rightarrow>
                       locateRecipe r optionArr True (map_of cs choice) (Suc counter) w
                   | None \<Rightarrow>
                       (case inquirer_list message curScopeChoices w of
                          (Inl e, w') \<Rightarrow> (Inl e, w')
                        | (Inr choice, w') \<Rightarrow>
                            locateRecipe r optionArr False (map_of cs choice)
                              (Suc counter) w'))))"
  by pat_completeness auto
termination
  by (relation "measure (\<lambda>(r, optionArr, useOption, recipeScope, counter, w).
        scope_measure recipeScope)")
     (use scope_measure_map_of in auto)

text \<open>
  Lines 263 to 272: the set of paths of the recipe and the list of its moves.
\<close>

definition recipeManifest_step ::
  "string set \<times> boxConfigRecipeSpecMv list \<Rightarrow> filespec
     \<Rightarrow> string set \<times> boxConfigRecipeSpecMv list" where
  "recipeManifest_step acc file =
     (case acc of
        (recipeFilesSet, recipeMvs) \<Rightarrow>
          (case file of
             Plain s \<Rightarrow> (insert s recipeFilesSet, recipeMvs)
           | Mv mv \<Rightarrow> (insert (mvFrom mv) recipeFilesSet, recipeMvs @ [mv])))"

definition recipeManifest :: "filespec list \<Rightarrow> string set \<times> boxConfigRecipeSpecMv list" where
  "recipeManifest recipeFiles = foldl recipeManifest_step ({}, []) recipeFiles"

text \<open>Lines 274 to 279: remove the files that are not in the recipe.\<close>

definition removeExtraFiles :: "string set \<Rightarrow> path \<Rightarrow> world \<Rightarrow> error option \<times> world" where
  "removeExtraFiles recipeFilesSet destination w =
     (case traverseDir destination w of
        Inl e \<Rightarrow> (Some e, w)
      | Inr allFiles \<Rightarrow>
          (let extraFiles = filter (\<lambda>file. file \<notin> recipeFilesSet) allFiles
           in (None,
               foldl (\<lambda>w' extraFile. removeSync (path_resolve destination extraFile) w')
                 w extraFiles)))"

text \<open>Lines 282 to 288: move and rename files; the first error ends the loop.\<close>

definition moveFile :: "path \<Rightarrow> boxConfigRecipeSpecMv \<Rightarrow> world \<Rightarrow> error option \<times> world" where
  "moveFile destination mv w =
     (let mvFrom' = path_resolve destination (mvFrom mv);
          mvTo' = path_resolve destination (mvTo mv)
      in case ensureDirSync (dirname mvTo') w of
           (Some e, w1) \<Rightarrow> (Some e, w1)
         | (None, w1) \<Rightarrow> renameSync mvFrom' mvTo' w1)"

fun moveFiles :: "path \<Rightarrow> boxConfigRecipeSpecMv list \<Rightarrow> world \<Rightarrow> error option \<times> world" where
  "moveFiles destination [] w = (None, w)"
| "moveFiles destination (mv # recipeMvs) w =
     (case moveFile destination mv w of
        (Some e, w1) \<Rightarrow> (Some e, w1)
      | (None, w1) \<Rightarrow> moveFiles destination recipeMvs w1)"

text \<open>Lines 274 to 291: the reconciliation of the destination with the recipe.\<close>

definition reconcile ::
  "string set \<Rightarrow> boxConfigRecipeSpecMv list \<Rightarrow> path \<Rightarrow> world \<Rightarrow> error option \<times> world" where
  "reconcile recipeFilesSet recipeMvs destination w =
     (case removeExtraFiles recipeFilesSet destination w of
        (Some e, w1) \<Rightarrow> (Some e, w1)
      | (None, w1) \<Rightarrow>
          (case moveFiles destination recipeMvs w1 of
             (Some e, w2) \<Rightarrow> (Some e, w2)
           | (None, w2) \<Rightarrow> removeEmptyDirs destination True w2))"

text \<open>
  \<open>option\<close> is \<open>None\<close> when the argument is \<^verbatim>\<open>undefined\<close>; reading \<^verbatim>\<open>option.split\<close> then
  throws.
\<close>

definition followBoxRecipe ::
  "recipes \<Rightarrow> path \<Rightarrow> string option \<Rightarrow> world \<Rightarrow> error option \<times> world" where
  "followBoxRecipe r destination option w =
     (if recipes_keys r = 0 then (None, w)
      else (case option of
              None \<Rightarrow> (Some TypeError, w)
            | Some opt \<Rightarrow>
                (let optionArr = split_on CHR '','' opt
                 in case locateRecipe r optionArr True (specs r) 0 w of
                      (Inl e, w1) \<Rightarrow> (Some e, w1)
                    | (Inr recipeFiles, w1) \<Rightarrow>
                        (case recipeManifest recipeFiles of
                           (recipeFilesSet, recipeMvs) \<Rightarrow>
                             reconcile recipeFilesSet recipeMvs destination w1))))"

text \<open>
  A recipe of two levels: every choice of the first level leads to a second choice, and
  every choice of the second level to a list of files.
\<close>

definition two_level :: "scope \<Rightarrow> bool" where
  "two_level sc =
     (case sc of
        Files fs \<Rightarrow> False
      | Choices cs \<Rightarrow>
          list_all (\<lambda>(k, s). case s of
                      Files fs \<Rightarrow> False
                    | Choices cs2 \<Rightarrow>
                        list_all (\<lambda>(k2, s2). case s2 of Files fs \<Rightarrow> True | Choices cs3 \<Rightarrow> False) cs2)
            cs)"


subsection \<open>The scenario of the specification\<close>

text \<open>
  The recipe has the variants \<^verbatim>\<open>js\<close> and \<^verbatim>\<open>ts\<close>; the destination \<^verbatim>\<open>/proj\<close> holds
  \<^verbatim>\<open>a.js\<close>, \<^verbatim>\<open>a.ts\<close>, \<^verbatim>\<open>tpl.txt\<close>, \<^verbatim>\<open>README.md\<close> and \<^verbatim>\<open>extra.md\<close>.
\<close>

definition scenario_recipes :: recipes where
  "scenario_recipes =
     \<lparr>specs = Some (Choices
        [(''js'', Files [Plain ''a.js'']),
         (''ts'', Files [Plain ''a.ts'', Mv \<lparr>mvFrom = ''tpl.txt'', mvTo = ''src/tpl.txt''\<rparr>])]),
      common = Some [Plain ''README.md''],
      prompts = Some [''Which language?'']\<rparr>"

definition scenario_world :: world where
  "scenario_world =
     \<lparr>root = Dir [(''proj'',
         Dir [(''a.js'', File ''js''), (''a.ts'', File ''ts''), (''tpl.txt'', File ''tpl''),
              (''README.md'', File ''readme''), (''extra.md'', File ''extra'')])],
      cwd = [''proj''], calls = [], asked = [], listAnswers = [], confirmAnswers = []\<rparr>"

text \<open>A destination with a chain of empty directories beside its files.\<close>

definition nested_world :: world where
  "nested_world =
     \<lparr>root = Dir [(''proj'',
         Dir [(''d'', Dir [(''e'', Dir [])]), (''a.ts'', File ''ts''),
              (''src'', Dir [(''tpl.txt'', File ''tpl'')])])],
      cwd = [''proj''], calls = [], asked = [], listAnswers = [], confirmAnswers = []\<rparr>"

text \<open>A recipe of two levels, and a user who answers \<^verbatim>\<open>js\<close> and then \<^verbatim>\<open>react\<close>.\<close>

definition js_variants :: "(string \<times> scope) list" where
  "js_variants = [(''react'', Files [Plain ''react.js'']), (''vue'', Files [Plain ''vue.js''])]"

definition ts_variants :: "(string \<times> scope) list" where
  "ts_variants = [(''react'', Files [Plain ''react.ts'']), (''vue'', Files [Plain ''vue.ts''])]"

definition two_level_choices :: "(string \<times> scope) list" where
  "two_level_choices = [(''js'', Choices js_variants), (''ts'', Choices ts_variants)]"

definition two_level_recipes :: recipes where
  "two_level_recipes =
     \<lparr>specs = Some (Choices two_level_choices),
      common = Some [Plain ''README.md''],
      prompts = Some [''Which language?'', ''Which framework?'']\<rparr>"

definition answering_world :: world where
  "answering_world = scenario_world\<lparr>listAnswers := [''js'', ''react'']\<rparr>"

text \<open>
  A merge: the temporary directory \<^verbatim>\<open>/t\<close> holds \<^verbatim>\<open>a.txt\<close> and the directory \<^verbatim>\<open>proj\<close>;
  the destination \<^verbatim>\<open>/w/proj\<close> holds entries of the same names, with other contents; the
  working directory is \<^verbatim>\<open>/w\<close>; the user declines to overwrite \<^verbatim>\<open>a.txt\<close> and accepts to
  overwrite \<^verbatim>\<open>proj\<close>.
\<close>

definition merge_world :: world where
  "merge_world =
     \<lparr>root = Dir [(''t'', Dir [(''a.txt'', File ''new''), (''proj'', Dir [(''x'', File ''1'')])]),
                  (''w'', Dir [(''proj'', Dir [(''a.txt'', File ''old''),
                                              (''proj'', Dir [(''y'', File ''2'')])])])],
      cwd = [''w''], calls = [], asked = [], listAnswers = [],
      confirmAnswers = [False, True]\<rparr>"

section \<open>Properties\<close>

subsection \<open>Path strings\<close>

lemma split_on_nonempty [simp]: "split_on c s \<noteq> []"
  by (induction s) (auto split: list.splits)

lemma split_on_single: "c \<notin> set f \<Longrightarrow> split_on c f = [f]"
  by (induction f) auto

lemma split_on_append: "split_on c (r @ c # f) = split_on c r @ split_on c f"
  by (induction r) (auto split: list.splits)

lemma split_on_no_sep: "w \<in> set (split_on c s) \<Longrightarrow> c \<notin> set w"
  by (induction s arbitrary: w) (auto split: if_splits list.splits)

lemma foldl_path_join_split:
  "\<forall>x \<in> set q. valid_name x \<Longrightarrow> q \<noteq> [] \<Longrightarrow>
     foldl path_join rel q \<noteq> []
     \<and> split_on CHR ''/'' (foldl path_join rel q)
         = (if rel = [] then q else split_on CHR ''/'' rel @ q)"
proof (induction q arbitrary: rel)
  case Nil
  then show ?case by simp
next
  case (Cons x q)
  have x: "x \<noteq> []" "CHR ''/'' \<notin> set x" using Cons.prems by (auto simp: valid_name_def)
  have ne: "path_join rel x \<noteq> []" using x by (simp add: path_join_def)
  have sp: "split_on CHR ''/'' (path_join rel x)
            = (if rel = [] then [x] else split_on CHR ''/'' rel @ [x])"
    using x by (simp add: path_join_def split_on_append split_on_single)
  show ?case
  proof (cases "q = []")
    case True
    then show ?thesis using ne sp by simp
  next
    case False
    then show ?thesis using Cons.IH [of "path_join rel x"] Cons.prems ne sp by simp
  qed
qed

lemma foldl_resolve_step_valid:
  "\<forall>x \<in> set q. valid_name x \<Longrightarrow> foldl resolve_step d q = d @ q"
  by (induction q arbitrary: d) (auto simp: resolve_step_def valid_name_def)

lemma path_resolve_relative:
  "\<forall>x \<in> set q. valid_name x \<Longrightarrow> q \<noteq> [] \<Longrightarrow> path_resolve d (relative q) = d @ q"
  using foldl_path_join_split [of q "[]"]
  by (simp add: path_resolve_def relative_def foldl_resolve_step_valid)

lemma resolve_step_valid:
  "\<forall>x \<in> set st. valid_name x \<Longrightarrow> CHR ''/'' \<notin> set c \<Longrightarrow>
     \<forall>x \<in> set (resolve_step st c). valid_name x"
  by (auto simp: resolve_step_def valid_name_def dest: in_set_butlastD)

lemma foldl_resolve_step_valid_names:
  "\<forall>x \<in> set st. valid_name x \<Longrightarrow> \<forall>c \<in> set cs. CHR ''/'' \<notin> set c \<Longrightarrow>
     \<forall>x \<in> set (foldl resolve_step st cs). valid_name x"
proof (induction cs arbitrary: st)
  case Nil
  then show ?case by simp
next
  case (Cons c cs)
  have "\<forall>x \<in> set (resolve_step st c). valid_name x"
    using resolve_step_valid [of st c] Cons.prems by simp
  then show ?case using Cons.IH [of "resolve_step st c"] Cons.prems by simp
qed

lemma path_resolve_valid:
  "\<forall>x \<in> set d. valid_name x \<Longrightarrow> \<forall>x \<in> set (path_resolve d s). valid_name x"
  unfolding path_resolve_def
  by (rule foldl_resolve_step_valid_names) (auto dest: split_on_no_sep)

subsection \<open>Looking up and altering the tree\<close>

lemma lookup_append:
  "lookup t (p @ q) = (case lookup t p of None \<Rightarrow> None | Some n \<Rightarrow> lookup n q)"
  by (induction t p rule: lookup.induct) (auto split: option.splits)

lemma lookup_Cons:
  "lookup t (x # p) =
     (case t of File c \<Rightarrow> None
      | Dir es \<Rightarrow> (case map_of es x of None \<Rightarrow> None | Some m \<Rightarrow> lookup m p))"
  by (cases t) simp_all

lemma alter_Cons_Dir:
  "alter (x # p) f (Dir es) =
     (if p = [] then (case f (map_of es x) of None \<Rightarrow> Dir (AList.delete x es)
                      | Some n \<Rightarrow> Dir (AList.update x n es))
      else (case map_of es x of None \<Rightarrow> Dir es
            | Some m \<Rightarrow> Dir (AList.update x (alter p f m) es)))"
  by (cases p) (auto split: option.splits)

lemma put_same: "lookup t p = Some n \<Longrightarrow> put p n t = t"
  unfolding put_def
  by (induction p "\<lambda>_::node option. Some n" t rule: alter.induct)
     (auto simp: update_triv split: option.splits)

lemma lookup_put_under:
  "p = [] \<or> (\<exists>ps. lookup t (butlast p) = Some (Dir ps)) \<Longrightarrow>
     lookup (put p n t) (p @ q) = lookup n q"
  unfolding put_def
  by (induction p "\<lambda>_::node option. Some n" t rule: alter.induct)
     (auto simp: update_conv' split: option.splits if_splits)

lemma lookup_remove_under:
  "p \<noteq> [] \<Longrightarrow> lookup (remove_at p t) (p @ q) = None"
  unfolding remove_at_def
  by (induction p "\<lambda>_::node option. None::node option" t rule: alter.induct)
     (auto simp: update_conv' delete_conv' split: option.splits)

lemma lookup_alter_incomparable:
  "\<not> prefix p q \<Longrightarrow> \<not> prefix q p \<Longrightarrow> lookup (alter p f t) q = lookup t q"
proof (induction p f t arbitrary: q rule: alter.induct)
  case (1 f n)
  then show ?case by simp
next
  case (2 x p f c)
  then show ?case by simp
next
  case (3 x f es)
  then show ?case
    by (cases q) (auto simp: update_conv' delete_conv' split: option.splits)
next
  case (4 x y p f es)
  then show ?case
    by (cases q) (auto simp: update_conv' delete_conv' split: option.splits)
qed

lemma alter_File: "alter p f t = File c \<Longrightarrow> p \<noteq> [] \<Longrightarrow> t = File c"
  by (induction p f t rule: alter.induct) (auto split: option.splits)

lemma alter_File_id: "p \<noteq> [] \<Longrightarrow> alter p f (File c) = File c"
  by (cases p) simp_all

lemma lookup_alter_file:
  "\<not> prefix p q \<Longrightarrow>
     (lookup (alter p f t) q = Some (File c)) = (lookup t q = Some (File c))"
proof (induction p f t arbitrary: q rule: alter.induct)
  case (1 f n)
  then show ?case by simp
next
  case (2 x p f c)
  then show ?case by simp
next
  case (3 x f es)
  then show ?case
    by (cases q) (auto simp: update_conv' delete_conv' split: option.splits)
next
  case (4 x y p f es)
  show ?case
  proof (cases q)
    case Nil
    then show ?thesis by (auto split: option.splits)
  next
    case (Cons z q1)
    show ?thesis
    proof (cases "z = x")
      case True
      then have "\<not> prefix (y # p) q1" using 4(2) Cons by simp
      then show ?thesis using 4(1) Cons True
        by (auto simp: update_conv' split: option.splits)
    next
      case False
      then show ?thesis using Cons
        by (auto simp: update_conv' split: option.splits)
    qed
  qed
qed

lemma lookup_parent_dir:
  assumes "lookup t p = Some n" "p \<noteq> []"
  shows "\<exists>ps. lookup t (butlast p) = Some (Dir ps)"
proof -
  have "lookup t (butlast p @ [last p]) = Some n" using assms by simp
  then obtain m where m: "lookup t (butlast p) = Some m" "lookup m [last p] = Some n"
    by (auto simp: lookup_append split: option.splits)
  then show ?thesis by (cases m) auto
qed

lemma prefixE': "prefix p x \<Longrightarrow> \<exists>q. x = p @ q"
  by (auto simp: prefix_def)

lemma lookup_alter_dir:
  "\<not> prefix p q \<Longrightarrow>
     (\<exists>es. lookup (alter p f t) q = Some (Dir es)) = (\<exists>es. lookup t q = Some (Dir es))"
proof (induction p f t arbitrary: q rule: alter.induct)
  case (1 f n)
  then show ?case by simp
next
  case (2 x p f c)
  then show ?case by simp
next
  case (3 x f es)
  then show ?case
    by (cases q) (auto simp: update_conv' delete_conv' split: option.splits)
next
  case (4 x y p f es)
  show ?case
  proof (cases q)
    case Nil
    then show ?thesis by (auto split: option.splits)
  next
    case (Cons z q1)
    show ?thesis
    proof (cases "z = x")
      case True
      then have "\<not> prefix (y # p) q1" using 4(2) Cons by simp
      then show ?thesis using 4(1) Cons True
        by (auto simp: update_conv' split: option.splits)
    next
      case False
      then show ?thesis using Cons
        by (auto simp: update_conv' split: option.splits)
    qed
  qed
qed

lemma lookup_below_dir:
  assumes "lookup t (b @ x # r) = Some n"
  shows "\<exists>ds. lookup t b = Some (Dir ds) \<and> ds \<noteq> []"
proof -
  from assms obtain m where m: "lookup t b = Some m" "lookup m (x # r) = Some n"
    by (auto simp: lookup_append split: option.splits)
  then show ?thesis by (cases m) (auto split: option.splits)
qed

lemma mkdirs_root: "mkdirs [] t = Inr t' \<Longrightarrow> t' = t"
  by (cases t) simp_all

lemma mkdirs_is_dir: "mkdirs p t = Inr t' \<Longrightarrow> \<exists>es. lookup t' p = Some (Dir es)"
  by (induction p t arbitrary: t' rule: mkdirs.induct)
     (auto simp: update_conv' split: sum.splits option.splits)

lemma mkdirs_lookup_other:
  "mkdirs p t = Inr t' \<Longrightarrow> \<not> prefix q p \<Longrightarrow> lookup t' q = lookup t q"
proof (induction p t arbitrary: t' q rule: mkdirs.induct)
  case (1 es)
  then show ?case by simp
next
  case (2 c)
  then show ?case by simp
next
  case (3 x p c)
  then show ?case by simp
next
  case (4 x p es)
  from 4(2) obtain m' where m': "mkdirs p (case map_of es x of None \<Rightarrow> Dir [] | Some m \<Rightarrow> m) = Inr m'"
    and t': "t' = Dir (AList.update x m' es)"
    by (auto split: sum.splits)
  show ?case
  proof (cases q)
    case Nil
    then show ?thesis using 4(3) by simp
  next
    case (Cons z q1)
    show ?thesis
    proof (cases "z = x")
      case True
      then have np: "\<not> prefix q1 p" using 4(3) Cons by simp
      have "lookup m' q1 = lookup (case map_of es x of None \<Rightarrow> Dir [] | Some m \<Rightarrow> m) q1"
        using 4(1) [OF m' np] .
      moreover have "q1 \<noteq> []" using np by auto
      ultimately show ?thesis using Cons True t'
        by (cases q1) (auto simp: update_conv' split: option.splits)
    next
      case False
      then show ?thesis using Cons t' by (simp add: update_conv')
    qed
  qed
qed

lemma mkdirs_lookup_file:
  "mkdirs p t = Inr t' \<Longrightarrow> (lookup t' q = Some (File c)) = (lookup t q = Some (File c))"
proof (induction p t arbitrary: t' q rule: mkdirs.induct)
  case (1 es)
  then show ?case by simp
next
  case (2 c)
  then show ?case by simp
next
  case (3 x p c)
  then show ?case by simp
next
  case (4 x p es)
  from 4(2) obtain m' where m': "mkdirs p (case map_of es x of None \<Rightarrow> Dir [] | Some m \<Rightarrow> m) = Inr m'"
    and t': "t' = Dir (AList.update x m' es)"
    by (auto split: sum.splits)
  show ?case
  proof (cases q)
    case Nil
    then show ?thesis using t' by simp
  next
    case (Cons z q1)
    show ?thesis
    proof (cases "z = x")
      case True
      have "(lookup m' q1 = Some (File c))
            = (lookup (case map_of es x of None \<Rightarrow> Dir [] | Some m \<Rightarrow> m) q1 = Some (File c))"
        using 4(1) [OF m'] .
      then show ?thesis using Cons True t'
        by (cases q1) (auto simp: update_conv' split: option.splits)
    next
      case False
      then show ?thesis using Cons t' by (simp add: update_conv')
    qed
  qed
qed

lemma prefix_butlast: "prefix a (butlast b) \<Longrightarrow> prefix a b"
  by (metis prefix_order.trans prefixeq_butlast)

lemma rename_node_success:
  assumes "rename_node a b t = Inr t'" "a \<noteq> b"
  shows "\<exists>src ps. lookup t a = Some src \<and> lookup t (butlast b) = Some (Dir ps)
           \<and> t' = put b src (remove_at a t) \<and> \<not> prefix a b \<and> \<not> prefix b a
           \<and> (\<forall>c. src = File c \<longrightarrow> (\<forall>ds. lookup t b \<noteq> Some (Dir ds)))"
proof -
  from assms obtain src where src: "lookup t a = Some src"
    by (auto simp: rename_node_def split: option.splits)
  have nab: "\<not> prefix a b" using assms src
    by (auto simp: rename_node_def split: if_splits)
  from assms src nab obtain ps where ps: "lookup t (butlast b) = Some (Dir ps)"
    by (auto simp: rename_node_def split: option.splits node.splits)
  have t': "t' = put b src (remove_at a t)" using assms src nab ps
    by (auto simp: rename_node_def split: option.splits node.splits if_splits)
  have fl: "\<forall>c. src = File c \<longrightarrow> (\<forall>ds. lookup t b \<noteq> Some (Dir ds))" using assms src nab ps
    by (auto simp: rename_node_def split: option.splits node.splits if_splits)
  have nba: "\<not> prefix b a"
  proof
    assume "prefix b a"
    then obtain r where r: "a = b @ r" by (auto simp: prefix_def)
    with assms(2) obtain x r' where "r = x # r'" by (cases r) auto
    with r src obtain ds where ds: "lookup t b = Some (Dir ds)" "ds \<noteq> []"
      using lookup_below_dir [of t b x r' src] by auto
    then show False using assms src nab ps
      by (auto simp: rename_node_def split: option.splits node.splits if_splits)
  qed
  show ?thesis using src ps t' nab nba fl by blast
qed

lemma rename_node_missing: "lookup t a = None \<Longrightarrow> rename_node a b t = Inl ENOENT"
  by (simp add: rename_node_def)

lemma rename_node_moved:
  assumes "rename_node a b t = Inr t'" "a \<noteq> b"
  shows "lookup t' b = lookup t a" "lookup t' a = None"
proof -
  from rename_node_success [OF assms] obtain src ps where
    s: "lookup t a = Some src" "lookup t (butlast b) = Some (Dir ps)"
       "t' = put b src (remove_at a t)" "\<not> prefix a b" "\<not> prefix b a"
    by blast
  have a: "a \<noteq> []" using s(4) by auto
  have "\<not> prefix a (butlast b)" using s(4) prefix_butlast by blast
  then have "\<exists>es. lookup (remove_at a t) (butlast b) = Some (Dir es)"
    using s(2) lookup_alter_dir [of a "butlast b" "\<lambda>_. None" t] by (simp add: remove_at_def)
  then have "lookup (put b src (remove_at a t)) (b @ []) = lookup src []"
    by (intro lookup_put_under) blast
  then show "lookup t' b = lookup t a" using s by simp
  have "lookup (put b src (remove_at a t)) a = lookup (remove_at a t) a"
    using s(4,5) lookup_alter_incomparable [of b a] by (simp add: put_def)
  also have "\<dots> = None" using lookup_remove_under [OF a, of t "[]"] by simp
  finally show "lookup t' a = None" using s(3) by simp
qed

lemma rename_node_files:
  assumes "rename_node a b t = Inr t'" "lookup t' x = Some (File c)"
  shows "prefix b x \<or> lookup t x = Some (File c)"
proof (cases "a = b")
  case True
  then show ?thesis using assms by (auto simp: rename_node_def split: option.splits)
next
  case False
  from rename_node_success [OF assms(1) False] obtain src where
    s: "t' = put b src (remove_at a t)" by blast
  show ?thesis
  proof (cases "prefix b x")
    case True
    then show ?thesis by simp
  next
    case nb: False
    then have rm: "lookup (remove_at a t) x = Some (File c)"
      using assms(2) s lookup_alter_file [OF nb] by (simp add: put_def)
    have a: "a \<noteq> []" using rename_node_success [OF assms(1) False] by auto
    have na: "\<not> prefix a x"
    proof
      assume "prefix a x"
      then obtain r where "x = a @ r" by (auto simp: prefix_def)
      then show False using lookup_remove_under [OF a, of t r] rm by simp
    qed
    show ?thesis using rm lookup_alter_file [OF na, of "\<lambda>_. None" t c]
      by (simp add: remove_at_def)
  qed
qed

subsection \<open>Properties of traverseDir and of well-formed trees\<close>

lemma traverseDir_entries_complete:
  "lookup (Dir es) q = Some (File c) \<Longrightarrow>
     foldl path_join rel q \<in> set (traverseDir_entries rel es)"
proof (induction rel es arbitrary: q rule: traverseDir_entries.induct)
  case (1 rel)
  then show ?case by (cases q) simp_all
next
  case (2 rel fl c0 es)
  then obtain x q' where q: "q = x # q'" by (cases q) auto
  show ?case
  proof (cases "x = fl")
    case True
    then have "q' = []" using 2(2) q by (cases q') auto
    then show ?thesis using q True by simp
  next
    case False
    then have "lookup (Dir es) q = Some (File c)" using 2(2) q by simp
    then show ?thesis using 2(1) by simp
  qed
next
  case (3 rel fl sub es)
  then obtain x q' where q: "q = x # q'" by (cases q) auto
  show ?case
  proof (cases "x = fl")
    case True
    then have "lookup (Dir sub) q' = Some (File c)" using 3(3) q by simp
    then show ?thesis using 3(1) q True by simp
  next
    case False
    then have "lookup (Dir es) q = Some (File c)" using 3(3) q by simp
    then show ?thesis using 3(2) by simp
  qed
qed

lemma traverseDir_entries_sound:
  "distinct (map fst es) \<Longrightarrow> wf_entries es \<Longrightarrow> s \<in> set (traverseDir_entries rel es) \<Longrightarrow>
     \<exists>q c. lookup (Dir es) q = Some (File c) \<and> s = foldl path_join rel q"
proof (induction rel es arbitrary: s rule: traverseDir_entries.induct)
  case (1 rel)
  then show ?case by simp
next
  case (2 rel fl c0 es)
  show ?case
  proof (cases "s = path_join rel fl")
    case True
    have "lookup (Dir ((fl, File c0) # es)) [fl] = Some (File c0)" by simp
    moreover have "s = foldl path_join rel [fl]" using True by simp
    ultimately show ?thesis by blast
  next
    case False
    then have m: "s \<in> set (traverseDir_entries rel es)" using 2(4) by simp
    have wf: "distinct (map fst es)" "wf_entries es" using 2(2,3) by auto
    from 2(1) [OF wf m] obtain q c where
      q: "lookup (Dir es) q = Some (File c)" "s = foldl path_join rel q"
      by blast
    then obtain x q' where x: "q = x # q'" by (cases q) auto
    then have "map_of es x \<noteq> None" using q(1) by (auto split: option.splits)
    then have "x \<in> fst ` set es" by (simp add: map_of_eq_None_iff)
    then have "x \<noteq> fl" using 2(2) by auto
    then have "lookup (Dir ((fl, File c0) # es)) q = Some (File c)" using q(1) x by simp
    then show ?thesis using q(2) by blast
  qed
next
  case (3 rel fl sub es)
  have wf: "distinct (map fst sub)" "wf_entries sub" "distinct (map fst es)" "wf_entries es"
    "fl \<notin> fst ` set es"
    using 3(3,4) by auto
  from 3(5) consider "s \<in> set (traverseDir_entries (path_join rel fl) sub)"
    | "s \<in> set (traverseDir_entries rel es)" by auto
  then show ?case
  proof cases
    case 1
    from 3(1) [OF wf(1,2) 1] obtain q c where
      q: "lookup (Dir sub) q = Some (File c)" "s = foldl path_join (path_join rel fl) q" by blast
    then have "lookup (Dir ((fl, Dir sub) # es)) (fl # q) = Some (File c)" by simp
    moreover have "s = foldl path_join rel (fl # q)" using q(2) by simp
    ultimately show ?thesis by blast
  next
    case 2
    from 3(2) [OF wf(3,4) 2] obtain q c where
      q: "lookup (Dir es) q = Some (File c)" "s = foldl path_join rel q" by blast
    then obtain x q' where x: "q = x # q'" by (cases q) auto
    then have "map_of es x \<noteq> None" using q(1) by (auto split: option.splits)
    then have "x \<in> fst ` set es" by (simp add: map_of_eq_None_iff)
    then have "x \<noteq> fl" using wf(5) by auto
    then have "lookup (Dir ((fl, Dir sub) # es)) q = Some (File c)" using q(1) x by simp
    then show ?thesis using q(2) by blast
  qed
qed

lemma wf_entries_map_of:
  "wf_entries es \<Longrightarrow> map_of es x = Some m \<Longrightarrow> valid_name x \<and> wf_node m"
  by (induction es) (auto split: if_splits)

lemma wf_lookup:
  "wf_node t \<Longrightarrow> lookup t q = Some n \<Longrightarrow> (\<forall>x \<in> set q. valid_name x) \<and> wf_node n"
proof (induction t q arbitrary: n rule: lookup.induct)
  case (1 n0)
  then show ?case by simp
next
  case (2 c x p)
  then show ?case by simp
next
  case (3 es x p)
  from 3(3) obtain m where m: "map_of es x = Some m" "lookup m p = Some n"
    by (auto split: option.splits)
  from wf_entries_map_of [OF _ m(1)] 3(2) have "valid_name x" "wf_node m" by auto
  then show ?case using 3(1) [OF m(1) _ m(2)] by simp
qed

lemma wf_entries_iff:
  "wf_entries es = (\<forall>(k, n) \<in> set es. valid_name k \<and> wf_node n)"
  by (induction es) auto

lemma wf_entries_delete: "wf_entries es \<Longrightarrow> wf_entries (AList.delete k es)"
  by (induction es) auto

lemma wf_entries_update:
  "wf_entries es \<Longrightarrow> valid_name k \<Longrightarrow> wf_node n \<Longrightarrow> wf_entries (AList.update k n es)"
  by (induction es) auto

lemma wf_alter:
  "wf_node t \<Longrightarrow> (\<forall>v n. f v = Some n \<longrightarrow> wf_node n \<and> (p \<noteq> [] \<longrightarrow> valid_name (last p))) \<Longrightarrow>
     wf_node (alter p f t)"
proof (induction p f t rule: alter.induct)
  case (1 f n)
  then show ?case by (auto split: option.splits)
next
  case (2 x p f c)
  then show ?case by simp
next
  case (3 x f es)
  then show ?case
    by (auto simp: distinct_delete distinct_update wf_entries_delete wf_entries_update
             split: option.splits)
next
  case (4 x y p f es)
  show ?case
  proof (cases "map_of es x")
    case None
    then show ?thesis using 4(2) by simp
  next
    case (Some m)
    from wf_entries_map_of [OF _ Some] 4(2) have m: "valid_name x" "wf_node m" by auto
    have c: "\<forall>v n. f v = Some n \<longrightarrow> wf_node n \<and> (y # p \<noteq> [] \<longrightarrow> valid_name (last (y # p)))"
      using 4(3) by simp
    have "wf_node (alter (y # p) f m)" by (rule 4(1) [OF Some m(2) c])
    then show ?thesis using Some 4(2) m
      by (simp add: distinct_update wf_entries_update)
  qed
qed

lemma wf_remove_at: "wf_node t \<Longrightarrow> wf_node (remove_at p t)"
  unfolding remove_at_def by (rule wf_alter) simp_all

lemma wf_put:
  "wf_node t \<Longrightarrow> wf_node n \<Longrightarrow> p = [] \<or> valid_name (last p) \<Longrightarrow> wf_node (put p n t)"
  unfolding put_def by (rule wf_alter) auto

lemma wf_mkdirs:
  "wf_node t \<Longrightarrow> \<forall>x \<in> set p. valid_name x \<Longrightarrow> mkdirs p t = Inr t' \<Longrightarrow> wf_node t'"
proof (induction p t arbitrary: t' rule: mkdirs.induct)
  case (1 es)
  then show ?case by auto
next
  case (2 c)
  then show ?case by simp
next
  case (3 x p c)
  then show ?case by simp
next
  case (4 x p es)
  from 4(4) obtain m' where m': "mkdirs p (case map_of es x of None \<Rightarrow> Dir [] | Some m \<Rightarrow> m) = Inr m'"
    and t': "t' = Dir (AList.update x m' es)"
    by (auto split: sum.splits)
  have "wf_node (case map_of es x of None \<Rightarrow> Dir [] | Some m \<Rightarrow> m)"
    using 4(2) wf_entries_map_of [of es x] by (auto split: option.splits)
  then have "wf_node m'" using 4(1) [OF _ _ m'] 4(3) by simp
  then show ?case using t' 4(2,3) by (simp add: distinct_update wf_entries_update)
qed

lemma wf_rename_node:
  assumes "wf_node t" "\<forall>x \<in> set b. valid_name x" "rename_node a b t = Inr t'"
  shows "wf_node t'"
proof (cases "a = b")
  case True
  then show ?thesis using assms by (auto simp: rename_node_def split: option.splits)
next
  case False
  from rename_node_success [OF assms(3) False] obtain src where
    s: "lookup t a = Some src" "t' = put b src (remove_at a t)" by blast
  have "wf_node src" using wf_lookup [OF assms(1) s(1)] by simp
  moreover have "b = [] \<or> valid_name (last b)" using assms(2) by (cases "b = []") auto
  ultimately show ?thesis using s(2) assms(1) by (simp add: wf_put wf_remove_at)
qed

subsection \<open>Properties of removeEmptyDirs\<close>

lemma removeEmptyDirs_node_wf:
  "wf_node n \<Longrightarrow> removeEmptyDirs_node dir isRoot n = (Some n', l) \<Longrightarrow> wf_node n'"
  "wf_entries es \<Longrightarrow> distinct (map fst es) \<Longrightarrow> removeEmptyDirs_each dir' es = (es', l') \<Longrightarrow>
     wf_entries es' \<and> distinct (map fst es') \<and> fst ` set es' \<subseteq> fst ` set es"
proof (induction dir isRoot n and dir' es arbitrary: n' l and es' l'
       rule: removeEmptyDirs_node_removeEmptyDirs_each.induct)
  case (1 dir isRoot c)
  then show ?case by auto
next
  case (2 dir isRoot files)
  show ?case
  proof (cases "files = []")
    case True
    then show ?thesis using 2(3) by (auto split: if_splits)
  next
    case False
    obtain fs' l0 where e: "removeEmptyDirs_each dir files = (fs', l0)"
      by (cases "removeEmptyDirs_each dir files")
    from 2(1) [OF False _ _ e] 2(2) have "wf_entries fs' \<and> distinct (map fst fs')" by simp
    then show ?thesis using 2(3) False e by (auto split: if_splits)
  qed
next
  case (3 dir)
  then show ?case by simp
next
  case (4 dir fl n rest)
  obtain r1 l1 where r1: "removeEmptyDirs_node (dir @ [fl]) False n = (r1, l1)"
    by (cases "removeEmptyDirs_node (dir @ [fl]) False n")
  obtain rest' l2 where r2: "removeEmptyDirs_each dir rest = (rest', l2)"
    by (cases "removeEmptyDirs_each dir rest")
  have wf: "valid_name fl" "wf_node n" "wf_entries rest" "distinct (map fst rest)"
    "fl \<notin> fst ` set rest"
    using 4(3,4) by auto
  from 4(2) [OF r1 [symmetric] wf(3,4) r2]
  have rest': "wf_entries rest'" "distinct (map fst rest')" "fst ` set rest' \<subseteq> fst ` set rest"
    by auto
  show ?case
  proof (cases r1)
    case None
    then show ?thesis using 4(5) r1 r2 rest' by auto
  next
    case (Some n1)
    have n1: "wf_node n1" using 4(1) [OF wf(2)] r1 Some by simp
    have nin: "fl \<notin> fst ` set rest'" using rest'(3) wf(5) by blast
    have sub: "fst ` set rest' \<subseteq> insert fl (fst ` set rest)" using rest'(3) by blast
    have "es' = (fl, n1) # rest'" using 4(5) r1 r2 Some by simp
    then show ?thesis using n1 nin sub rest'(1,2) wf(1) by simp
  qed
qed

lemma removeEmptyDirs_node_files_back:
  "wf_node n \<Longrightarrow> removeEmptyDirs_node dir isRoot n = (Some n', l) \<Longrightarrow>
     lookup n' q = Some (File c) \<Longrightarrow> lookup n q = Some (File c)"
  "wf_entries es \<Longrightarrow> distinct (map fst es) \<Longrightarrow> removeEmptyDirs_each dir' es = (es', l') \<Longrightarrow>
     map_of es' x = Some m' \<Longrightarrow> lookup m' q' = Some (File c') \<Longrightarrow>
     \<exists>m. map_of es x = Some m \<and> lookup m q' = Some (File c')"
proof (induction dir isRoot n and dir' es arbitrary: n' l q c and es' l' x m' q' c'
       rule: removeEmptyDirs_node_removeEmptyDirs_each.induct)
  case (1 dir isRoot c0)
  then show ?case by auto
next
  case (2 dir isRoot files)
  show ?case
  proof (cases "files = []")
    case True
    then show ?thesis using 2(3,4) by (auto split: if_splits)
  next
    case False
    obtain fs' l0 where e: "removeEmptyDirs_each dir files = (fs', l0)"
      by (cases "removeEmptyDirs_each dir files")
    then have n': "n' = Dir fs'" using 2(3) False by (auto split: if_splits)
    show ?thesis
    proof (cases q)
      case Nil
      then show ?thesis using 2(4) n' by simp
    next
      case (Cons x q1)
      then obtain m' where m': "map_of fs' x = Some m'" "lookup m' q1 = Some (File c)"
        using 2(4) n' by (auto split: option.splits)
      from 2(1) [OF False _ _ e m'] 2(2)
      obtain m where "map_of files x = Some m" "lookup m q1 = Some (File c)" by auto
      then show ?thesis using Cons by simp
    qed
  qed
next
  case (3 dir)
  then show ?case by simp
next
  case (4 dir fl n rest)
  obtain r1 l1 where r1: "removeEmptyDirs_node (dir @ [fl]) False n = (r1, l1)"
    by (cases "removeEmptyDirs_node (dir @ [fl]) False n")
  obtain rest' l2 where r2: "removeEmptyDirs_each dir rest = (rest', l2)"
    by (cases "removeEmptyDirs_each dir rest")
  have wf: "valid_name fl" "wf_node n" "wf_entries rest" "distinct (map fst rest)"
    "fl \<notin> fst ` set rest"
    using 4(3,4) by auto
  have sub: "fst ` set rest' \<subseteq> fst ` set rest"
    using removeEmptyDirs_node_wf(2) [OF wf(3,4) r2] by simp
  show ?case
  proof (cases "x = fl")
    case True
    show ?thesis
    proof (cases r1)
      case None
      then have "es' = rest'" using 4(5) r1 r2 by simp
      then have "fl \<in> fst ` set rest'" using 4(6) True
        by (metis domI dom_map_of_conv_image_fst)
      then show ?thesis using sub wf(5) by blast
    next
      case (Some n1)
      then have "m' = n1" using 4(5,6) r1 r2 True by auto
      then have "lookup n q' = Some (File c')"
        using 4(1) [OF wf(2), of n1 l1 q' c'] r1 Some 4(7) by simp
      then show ?thesis using True by simp
    qed
  next
    case False
    then have "map_of rest' x = Some m'" using 4(5,6) r1 r2 by (auto split: option.splits)
    from 4(2) [OF r1 [symmetric] wf(3,4) r2 this 4(7)]
    show ?thesis using False by simp
  qed
qed

lemma entries_nonempty_Cons:
  "entries_nonempty ((f, n) # es) =
     ((case n of File c \<Rightarrow> True | Dir sub \<Rightarrow> sub \<noteq> [] \<and> entries_nonempty sub)
      \<and> entries_nonempty es)"
  by (cases n) simp_all

lemma removeEmptyDirs_node_clean:
  "(\<forall>n' l. removeEmptyDirs_node dir isRoot n = (Some n', l) \<longrightarrow>
      (case n' of File c \<Rightarrow> True | Dir es' \<Rightarrow> entries_nonempty es' \<and> (isRoot \<or> es' \<noteq> [])))"
  "entries_nonempty (fst (removeEmptyDirs_each dir' es))"
proof (induction dir isRoot n and dir' es rule: removeEmptyDirs_node_removeEmptyDirs_each.induct)
  case (1 dir isRoot c)
  then show ?case by simp
next
  case (2 dir isRoot files)
  then show ?case by (auto split: prod.splits if_splits)
next
  case (3 dir)
  then show ?case by simp
next
  case (4 dir fl n rest)
  then show ?case
    by (auto simp: entries_nonempty_Cons split: prod.splits option.splits node.splits)
qed

lemma removeEmptyDirs_node_root: "fst (removeEmptyDirs_node dir True n) \<noteq> None"
  by (cases n) (auto split: prod.splits)

lemma removeEmptyDirs_node_files:
  "removeEmptyDirs_node dir isRoot n = (r, l) \<Longrightarrow> lookup n q = Some (File c) \<Longrightarrow>
     \<exists>n'. r = Some n' \<and> lookup n' q = Some (File c)"
  "removeEmptyDirs_each dir' es = (es', l') \<Longrightarrow> map_of es x = Some m \<Longrightarrow>
     lookup m q' = Some (File c') \<Longrightarrow>
     \<exists>m'. map_of es' x = Some m' \<and> lookup m' q' = Some (File c')"
proof (induction dir isRoot n and dir' es arbitrary: r l q c and es' l' x m q' c'
       rule: removeEmptyDirs_node_removeEmptyDirs_each.induct)
  case (1 dir isRoot c0)
  then show ?case by auto
next
  case (2 dir isRoot files)
  show ?case
  proof (cases q)
    case Nil
    then show ?thesis using 2 by simp
  next
    case (Cons x q1)
    then obtain m where m: "map_of files x = Some m" "lookup m q1 = Some (File c)"
      using 2(3) by (auto split: option.splits)
    then have ne: "files \<noteq> []" by auto
    obtain fs' l0 where e: "removeEmptyDirs_each dir files = (fs', l0)"
      by (cases "removeEmptyDirs_each dir files")
    from 2(1)[OF ne e m] obtain m' where m': "map_of fs' x = Some m'" "lookup m' q1 = Some (File c)"
      by blast
    then have "fs' \<noteq> []" by auto
    then show ?thesis using 2(2) ne e m' Cons by (auto split: if_splits)
  qed
next
  case (3 dir)
  then show ?case by simp
next
  case (4 dir fl n rest)
  obtain r1 l1 where r1: "removeEmptyDirs_node (dir @ [fl]) False n = (r1, l1)"
    by (cases "removeEmptyDirs_node (dir @ [fl]) False n")
  obtain rest' l2 where r2: "removeEmptyDirs_each dir rest = (rest', l2)"
    by (cases "removeEmptyDirs_each dir rest")
  show ?case
  proof (cases "x = fl")
    case True
    then have "m = n" using 4(4) by simp
    with 4(1)[OF r1] 4(5) obtain n' where "r1 = Some n'" "lookup n' q' = Some (File c')"
      by blast
    then show ?thesis using 4(3) r1 r2 True by auto
  next
    case False
    then have "map_of rest x = Some m" using 4(4) by simp
    from 4(2)[OF r1[symmetric] r2 this 4(5)]
    obtain m' where "map_of rest' x = Some m'" "lookup m' q' = Some (File c')" by blast
    then show ?thesis using 4(3) r1 r2 False by (auto split: option.splits)
  qed
qed

lemma removeEmptyDirs_node_calls:
  "\<forall>call \<in> set (snd (removeEmptyDirs_node dir isRoot n)). \<exists>p. call = RmdirSync p"
  "\<forall>call \<in> set (snd (removeEmptyDirs_each dir' es)). \<exists>p. call = RmdirSync p"
  by (induction dir isRoot n and dir' es rule: removeEmptyDirs_node_removeEmptyDirs_each.induct)
     (auto split: prod.splits if_splits)

lemma removeEmptyDirs_node_call_paths:
  "\<forall>call \<in> set (snd (removeEmptyDirs_node dir isRoot n)).
      \<exists>q. call = RmdirSync (dir @ q) \<and> (isRoot \<longrightarrow> q \<noteq> [])"
  "\<forall>call \<in> set (snd (removeEmptyDirs_each dir' es)). \<exists>q. call = RmdirSync (dir' @ q) \<and> q \<noteq> []"
proof (induction dir isRoot n and dir' es rule: removeEmptyDirs_node_removeEmptyDirs_each.induct)
  case (1 dir isRoot c)
  then show ?case by simp
next
  case (2 dir isRoot files)
  then show ?case by (fastforce split: prod.splits if_splits)
next
  case (3 dir)
  then show ?case by simp
next
  case (4 dir fl n rest)
  have "\<exists>q. call = RmdirSync (dir @ q) \<and> q \<noteq> []"
    if "call \<in> set (snd (removeEmptyDirs_node (dir @ [fl]) False n))" for call
  proof -
    from 4(1) that obtain q where "call = RmdirSync ((dir @ [fl]) @ q)" by blast
    then have "call = RmdirSync (dir @ (fl # q)) \<and> fl # q \<noteq> []" by simp
    then show ?thesis by blast
  qed
  then show ?case using 4(2) by (auto split: prod.splits)
qed


text \<open>
  C5: called on a directory \<open>dir\<close> as the root, \<^verbatim>\<open>removeEmptyDirs\<close> returns without an
  error, \<open>dir\<close> is still a directory afterwards (no \<^verbatim>\<open>rmdirSync\<close> call names it, even
  when it ends up empty), and every directory that remains below \<open>dir\<close> lists at least
  one entry, recursively. Called on a file, it changes nothing.
\<close>

theorem removeEmptyDirs_keeps_root:
  "(lookup (root w) dir = Some (Dir es) \<longrightarrow>
      (\<exists>es' l. removeEmptyDirs dir True w
                 = (None, w\<lparr>root := put dir (Dir es') (root w), calls := calls w @ l\<rparr>)
         \<and> lookup (put dir (Dir es') (root w)) dir = Some (Dir es')
         \<and> entries_nonempty es'
         \<and> RmdirSync dir \<notin> set l))
   \<and> (lookup (root w) dir = Some (File c) \<longrightarrow> removeEmptyDirs dir True w = (None, w))"
proof (intro conjI impI)
  assume d: "lookup (root w) dir = Some (Dir es)"
  obtain r l where r: "removeEmptyDirs_node dir True (Dir es) = (r, l)"
    by (cases "removeEmptyDirs_node dir True (Dir es)")
  then obtain es' where es': "r = Some (Dir es')"
    by (auto split: prod.splits)
  have clean: "entries_nonempty es'"
    using removeEmptyDirs_node_clean(1) [of dir True "Dir es"] r es' by simp
  have par: "dir = [] \<or> (\<exists>ps. lookup (root w) (butlast dir) = Some (Dir ps))"
    using lookup_parent_dir [OF d] by blast
  have lk: "lookup (put dir (Dir es') (root w)) dir = Some (Dir es')"
    using lookup_put_under [OF par, of "Dir es'" "[]"] by simp
  have nr: "RmdirSync dir \<notin> set l"
    using removeEmptyDirs_node_call_paths(1) [of dir True "Dir es"] r by auto
  have "removeEmptyDirs dir True w
          = (None, w\<lparr>root := put dir (Dir es') (root w), calls := calls w @ l\<rparr>)"
    using d r es' by (simp add: removeEmptyDirs_def)
  then show "\<exists>es' l. removeEmptyDirs dir True w
                 = (None, w\<lparr>root := put dir (Dir es') (root w), calls := calls w @ l\<rparr>)
         \<and> lookup (put dir (Dir es') (root w)) dir = Some (Dir es')
         \<and> entries_nonempty es'
         \<and> RmdirSync dir \<notin> set l"
    using lk clean nr by blast
next
  assume f: "lookup (root w) dir = Some (File c)"
  then show "removeEmptyDirs dir True w = (None, w)"
    by (simp add: removeEmptyDirs_def put_same)
qed


theorem removeEmptyDirs_keeps_root_witness:
  "lookup (root nested_world) [''proj'']
     = Some (Dir [(''d'', Dir [(''e'', Dir [])]), (''a.ts'', File ''ts''),
                  (''src'', Dir [(''tpl.txt'', File ''tpl'')])])
   \<and> (\<exists>es' l. removeEmptyDirs [''proj''] True nested_world
                 = (None, nested_world\<lparr>root := put [''proj''] (Dir es') (root nested_world),
                                          calls := calls nested_world @ l\<rparr>)
         \<and> lookup (put [''proj''] (Dir es') (root nested_world)) [''proj''] = Some (Dir es')
         \<and> entries_nonempty es'
         \<and> RmdirSync [''proj''] \<notin> set l)
   \<and> lookup (root nested_world) [''proj'', ''a.ts''] = Some (File ''ts'')
   \<and> removeEmptyDirs [''proj'', ''a.ts''] True nested_world = (None, nested_world)"
proof -
  have h1: "lookup (root nested_world) [''proj'']
     = Some (Dir [(''d'', Dir [(''e'', Dir [])]), (''a.ts'', File ''ts''),
                  (''src'', Dir [(''tpl.txt'', File ''tpl'')])])"
    by (simp add: nested_world_def)
  have h2: "lookup (root nested_world) [''proj'', ''a.ts''] = Some (File ''ts'')"
    by (simp add: nested_world_def)
  show ?thesis
    using h1 h2
      removeEmptyDirs_keeps_root [of nested_world "[''proj'']"
        "[(''d'', Dir [(''e'', Dir [])]), (''a.ts'', File ''ts''),
          (''src'', Dir [(''tpl.txt'', File ''tpl'')])]" "''ts''"]
      removeEmptyDirs_keeps_root [of nested_world "[''proj'', ''a.ts'']" "[]" "''ts''"]
    by blast
qed

text \<open>
  C10: a file that stands at a path before \<^verbatim>\<open>removeEmptyDirs\<close> stands at the same path
  with the same content afterwards, below \<open>dir\<close> and anywhere else; the only file system
  calls it makes are \<^verbatim>\<open>rmdirSync\<close> calls, which remove directories only.
\<close>

theorem removeEmptyDirs_keeps_files:
  "(lookup (root w) x = Some (File c) \<longrightarrow>
      lookup (root (snd (removeEmptyDirs dir isRoot w))) x = Some (File c))
   \<and> (\<exists>l. calls (snd (removeEmptyDirs dir isRoot w)) = calls w @ l
          \<and> (\<forall>call \<in> set l. \<exists>p. call = RmdirSync p))"
proof (cases "lookup (root w) dir")
  case None
  then show ?thesis by (simp add: removeEmptyDirs_def)
next
  case (Some n)
  obtain r l where r: "removeEmptyDirs_node dir isRoot n = (r, l)"
    by (cases "removeEmptyDirs_node dir isRoot n")
  have calls: "calls (snd (removeEmptyDirs dir isRoot w)) = calls w @ l"
    using Some r by (auto simp: removeEmptyDirs_def split: option.splits)
  have rm: "\<forall>call \<in> set l. \<exists>p. call = RmdirSync p"
    using removeEmptyDirs_node_calls(1) [of dir isRoot n] r by simp
  have files: "lookup (root (snd (removeEmptyDirs dir isRoot w))) x = Some (File c)"
    if x: "lookup (root w) x = Some (File c)"
  proof (cases "prefix dir x")
    case True
    then obtain q where q: "x = dir @ q" using prefixE' by blast
    then have "lookup n q = Some (File c)" using x Some by (simp add: lookup_append)
    from removeEmptyDirs_node_files(1) [OF r this]
    obtain n' where n': "r = Some n'" "lookup n' q = Some (File c)" by blast
    have par: "dir = [] \<or> (\<exists>ps. lookup (root w) (butlast dir) = Some (Dir ps))"
      using lookup_parent_dir [OF Some] by blast
    show ?thesis using Some r n' q lookup_put_under [OF par, of n' q]
      by (simp add: removeEmptyDirs_def)
  next
    case False
    then show ?thesis using Some r x
      by (auto simp: removeEmptyDirs_def remove_at_def put_def lookup_alter_file
               split: option.splits)
  qed
  show ?thesis using calls rm files by blast
qed

theorem removeEmptyDirs_keeps_files_witness:
  "lookup (root nested_world) [''proj'', ''src'', ''tpl.txt''] = Some (File ''tpl'')
   \<and> lookup (root (snd (removeEmptyDirs [''proj''] True nested_world)))
         [''proj'', ''src'', ''tpl.txt''] = Some (File ''tpl'')
   \<and> calls (snd (removeEmptyDirs [''proj''] True nested_world))
       = calls nested_world @ [RmdirSync [''proj'', ''d'', ''e''], RmdirSync [''proj'', ''d'']]"
proof -
  have h: "lookup (root nested_world) [''proj'', ''src'', ''tpl.txt''] = Some (File ''tpl'')"
    by (simp add: nested_world_def)
  have c: "calls (snd (removeEmptyDirs [''proj''] True nested_world))
       = calls nested_world @ [RmdirSync [''proj'', ''d'', ''e''], RmdirSync [''proj'', ''d'']]"
    by (simp add: nested_world_def removeEmptyDirs_def)
  show ?thesis
    using h c
      removeEmptyDirs_keeps_files [of nested_world "[''proj'', ''src'', ''tpl.txt'']" "''tpl''"
        "[''proj'']" True]
    by blast
qed

subsection \<open>Locating the recipe (lines 221 to 258)\<close>

lemma locateRecipe_None:
  "locateRecipe r optionArr useOption None counter w = (Inl TypeError, w)"
  by (subst locateRecipe.simps) simp

lemma locateRecipe_Files:
  "locateRecipe r optionArr useOption (Some (Files fs)) counter w =
     (case common r of None \<Rightarrow> (Inl TypeError, w) | Some c \<Rightarrow> (Inr (fs @ c), w))"
  by (subst locateRecipe.simps) simp

declare locateRecipe.simps [simp del]

lemma locateRecipe_preset:
  "prompts r = Some ps \<Longrightarrow> nth_opt ps counter = Some message \<Longrightarrow>
   nth_opt optionArr counter = Some t \<Longrightarrow> t \<in> fst ` set cs \<Longrightarrow>
     locateRecipe r optionArr True (Some (Choices cs)) counter w =
       locateRecipe r optionArr True (map_of cs t) (Suc counter) w"
  by (subst locateRecipe.simps) simp

lemma locateRecipe_prompt:
  "prompts r = Some ps \<Longrightarrow> nth_opt ps counter = Some message \<Longrightarrow>
   \<not> useOption \<or> (\<forall>t. nth_opt optionArr counter = Some t \<longrightarrow> t \<notin> fst ` set cs) \<Longrightarrow>
   listAnswers w = a # as \<Longrightarrow> a \<in> fst ` set cs \<Longrightarrow>
     locateRecipe r optionArr useOption (Some (Choices cs)) counter w =
       locateRecipe r optionArr False (map_of cs a) (Suc counter)
         (w\<lparr>asked := asked w @ [ListPrompt message (map fst cs)], listAnswers := as\<rparr>)"
  by (subst locateRecipe.simps) (auto simp: inquirer_list_def Let_def split: option.splits)

lemma two_level_child:
  "two_level (Choices cs) \<Longrightarrow> map_of cs k = Some (Choices cs2) \<Longrightarrow> k2 \<in> fst ` set cs2 \<Longrightarrow>
     \<exists>fs. map_of cs2 k2 = Some (Files fs)"
proof -
  assume tl: "two_level (Choices cs)" and m: "map_of cs k = Some (Choices cs2)"
    and k2: "k2 \<in> fst ` set cs2"
  from m have "(k, Choices cs2) \<in> set cs" by (rule map_of_SomeD)
  moreover from tl have "\<forall>x \<in> set cs. (case x of (k, s) \<Rightarrow> (case s of
                      Files fs \<Rightarrow> False
                    | Choices cs2 \<Rightarrow>
                        list_all (\<lambda>(k2, s2). case s2 of Files fs \<Rightarrow> True | Choices cs3 \<Rightarrow> False) cs2))"
    by (simp add: two_level_def list_all_iff)
  ultimately have l2: "list_all (\<lambda>(k2, s2). case s2 of Files fs \<Rightarrow> True | Choices cs3 \<Rightarrow> False) cs2"
    by fastforce
  from k2 obtain s2 where s2: "map_of cs2 k2 = Some s2"
    by (cases "map_of cs2 k2") (auto simp: map_of_eq_None_iff)
  then have "(k2, s2) \<in> set cs2" by (rule map_of_SomeD)
  with l2 obtain fs where "s2 = Files fs" by (cases s2) (auto simp: list_all_iff)
  with s2 show ?thesis by blast
qed

lemma removeSync_terminal [simp]:
  "asked (removeSync p w) = asked w" "listAnswers (removeSync p w) = listAnswers w"
  by (simp_all add: removeSync_def)

lemma foldl_removeSync_terminal:
  "asked (foldl (\<lambda>w' x. removeSync (g x) w') w xs) = asked w
   \<and> listAnswers (foldl (\<lambda>w' x. removeSync (g x) w') w xs) = listAnswers w"
  by (induction xs arbitrary: w) simp_all

lemma removeExtraFiles_terminal:
  "asked (snd (removeExtraFiles S d w)) = asked w
   \<and> listAnswers (snd (removeExtraFiles S d w)) = listAnswers w"
  by (simp add: removeExtraFiles_def foldl_removeSync_terminal split: sum.splits)

lemma moveFile_terminal:
  "asked (snd (moveFile d mv w)) = asked w \<and> listAnswers (snd (moveFile d mv w)) = listAnswers w"
  by (auto simp: moveFile_def ensureDirSync_def renameSync_def Let_def split: sum.splits prod.splits option.splits)

lemma moveFiles_terminal:
  "asked (snd (moveFiles d mvs w)) = asked w \<and> listAnswers (snd (moveFiles d mvs w)) = listAnswers w"
proof (induction mvs arbitrary: w)
  case Nil
  then show ?case by simp
next
  case (Cons mv mvs)
  obtain st w1 where m: "moveFile d mv w = (st, w1)" by (cases "moveFile d mv w")
  then have "asked w1 = asked w \<and> listAnswers w1 = listAnswers w"
    using moveFile_terminal [of d mv w] by simp
  then show ?case using m Cons.IH [of w1] by (cases st) simp_all
qed

lemma removeEmptyDirs_terminal:
  "asked (snd (removeEmptyDirs d isRoot w)) = asked w
   \<and> listAnswers (snd (removeEmptyDirs d isRoot w)) = listAnswers w"
  by (auto simp: removeEmptyDirs_def split: option.splits prod.splits)

lemma reconcile_terminal:
  "asked (snd (reconcile S mvs d w)) = asked w
   \<and> listAnswers (snd (reconcile S mvs d w)) = listAnswers w"
proof -
  obtain s1 w1 where a: "removeExtraFiles S d w = (s1, w1)" by (cases "removeExtraFiles S d w")
  obtain s2 w2 where b: "moveFiles d mvs w1 = (s2, w2)" by (cases "moveFiles d mvs w1")
  have 1: "asked w1 = asked w \<and> listAnswers w1 = listAnswers w"
    using removeExtraFiles_terminal [of S d w] a by simp
  have 2: "asked w2 = asked w1 \<and> listAnswers w2 = listAnswers w1"
    using moveFiles_terminal [of d mvs w1] b by simp
  show ?thesis
    using a b 1 2 removeEmptyDirs_terminal [of d True w2]
    by (cases s1; cases s2) (simp_all add: reconcile_def)
qed

lemma followBoxRecipe_located:
  "specs r = Some sc \<Longrightarrow> locateRecipe r (split_on CHR '','' opt) True (Some sc) 0 w = (Inr fs, w1) \<Longrightarrow>
     asked (snd (followBoxRecipe r d (Some opt) w)) = asked w1
     \<and> listAnswers (snd (followBoxRecipe r d (Some opt) w)) = listAnswers w1"
  using reconcile_terminal
  by (auto simp: followBoxRecipe_def recipes_keys_def split: prod.splits)

text \<open>
  C3: in a recipe of two levels with a prompt message for each level, when the first two
  option tokens are valid choices of their levels, \<^verbatim>\<open>followBoxRecipe\<close> shows no prompt.
  When the first token is not a choice of the first level and the user answers both
  prompts, exactly two prompts are shown, one for each level, whatever the tokens after
  the first are: the second level is chosen by the user, not by the second token.
\<close>

theorem preset_choices_and_prompts:
  assumes r: "specs r = Some (Choices cs)" "two_level (Choices cs)"
             "prompts r = Some (m0 # m1 # ms)" "common r = Some c"
  shows "(split_on CHR '','' opt = t1 # t2 # rest \<and> map_of cs t1 = Some (Choices cs2)
            \<and> t2 \<in> fst ` set cs2
          \<longrightarrow> asked (snd (followBoxRecipe r d (Some opt) w)) = asked w)
       \<and> (split_on CHR '','' opt = t1 # rest' \<and> t1 \<notin> fst ` set cs
            \<and> listAnswers w = a1 # a2 # as \<and> map_of cs a1 = Some (Choices cs2')
            \<and> a2 \<in> fst ` set cs2'
          \<longrightarrow> asked (snd (followBoxRecipe r d (Some opt) w))
                = asked w @ [ListPrompt m0 (map fst cs), ListPrompt m1 (map fst cs2')]
              \<and> listAnswers (snd (followBoxRecipe r d (Some opt) w)) = as)"
proof -
  have A: "asked (snd (followBoxRecipe r d (Some opt) w)) = asked w"
    if h: "split_on CHR '','' opt = t1 # t2 # rest \<and> map_of cs t1 = Some (Choices cs2)
            \<and> t2 \<in> fst ` set cs2"
  proof -
    from h have t1: "t1 \<in> fst ` set cs" by (metis domI dom_map_of_conv_image_fst)
    from two_level_child [OF r(2)] h obtain fs where fs: "map_of cs2 t2 = Some (Files fs)"
      by blast
    have "locateRecipe r (t1 # t2 # rest) True (Some (Choices cs)) 0 w = (Inr (fs @ c), w)"
      using r h t1 fs
      by (simp add: locateRecipe_preset [where ps = "m0 # m1 # ms"] locateRecipe_Files)
    with followBoxRecipe_located [OF r(1), of opt w] h show ?thesis by simp
  qed
  have B: "asked (snd (followBoxRecipe r d (Some opt) w))
                = asked w @ [ListPrompt m0 (map fst cs), ListPrompt m1 (map fst cs2')]
              \<and> listAnswers (snd (followBoxRecipe r d (Some opt) w)) = as"
    if h: "split_on CHR '','' opt = t1 # rest' \<and> t1 \<notin> fst ` set cs
            \<and> listAnswers w = a1 # a2 # as \<and> map_of cs a1 = Some (Choices cs2')
            \<and> a2 \<in> fst ` set cs2'"
  proof -
    from h have a1: "a1 \<in> fst ` set cs" by (metis domI dom_map_of_conv_image_fst)
    from two_level_child [OF r(2)] h obtain fs where fs: "map_of cs2' a2 = Some (Files fs)"
      by blast
    let ?w1 = "w\<lparr>asked := asked w @ [ListPrompt m0 (map fst cs)], listAnswers := a2 # as\<rparr>"
    let ?w2 = "?w1\<lparr>asked := asked ?w1 @ [ListPrompt m1 (map fst cs2')], listAnswers := as\<rparr>"
    have 1: "locateRecipe r (t1 # rest') True (Some (Choices cs)) 0 w
            = locateRecipe r (t1 # rest') False (Some (Choices cs2')) (Suc 0) ?w1"
      using r h a1
      by (subst locateRecipe_prompt [where ps = "m0 # m1 # ms" and a = a1 and as = "a2 # as"])
         auto
    have 2: "locateRecipe r (t1 # rest') False (Some (Choices cs2')) (Suc 0) ?w1
            = locateRecipe r (t1 # rest') False (Some (Files fs)) (Suc (Suc 0)) ?w2"
      using r h fs
      by (subst locateRecipe_prompt [where ps = "m0 # m1 # ms" and a = a2 and as = as]) auto
    have "locateRecipe r (t1 # rest') True (Some (Choices cs)) 0 w = (Inr (fs @ c), ?w2)"
      using 1 2 r by (simp add: locateRecipe_Files)
    with followBoxRecipe_located [OF r(1), of opt w] h show ?thesis by simp
  qed
  show ?thesis using A B by blast
qed

theorem preset_choices_and_prompts_witness:
  "specs two_level_recipes = Some (Choices two_level_choices)
   \<and> two_level (Choices two_level_choices)
   \<and> prompts two_level_recipes = Some [''Which language?'', ''Which framework?'']
   \<and> common two_level_recipes = Some [Plain ''README.md'']
   \<and> split_on CHR '','' ''ts,vue'' = [''ts'', ''vue'']
   \<and> map_of two_level_choices ''ts'' = Some (Choices ts_variants)
   \<and> ''vue'' \<in> fst ` set ts_variants
   \<and> asked (snd (followBoxRecipe two_level_recipes [''proj''] (Some ''ts,vue'') scenario_world))
       = asked scenario_world
   \<and> split_on CHR '','' ''py,vue'' = [''py'', ''vue'']
   \<and> ''py'' \<notin> fst ` set two_level_choices
   \<and> listAnswers answering_world = [''js'', ''react'']
   \<and> map_of two_level_choices ''js'' = Some (Choices js_variants)
   \<and> ''react'' \<in> fst ` set js_variants
   \<and> asked (snd (followBoxRecipe two_level_recipes [''proj''] (Some ''py,vue'') answering_world))
       = asked answering_world
         @ [ListPrompt ''Which language?'' (map fst two_level_choices),
            ListPrompt ''Which framework?'' (map fst js_variants)]
   \<and> listAnswers (snd (followBoxRecipe two_level_recipes [''proj''] (Some ''py,vue'')
         answering_world)) = []"
proof -
  have r: "specs two_level_recipes = Some (Choices two_level_choices)"
    "two_level (Choices two_level_choices)"
    "prompts two_level_recipes = Some [''Which language?'', ''Which framework?'']"
    "common two_level_recipes = Some [Plain ''README.md'']"
    by (simp_all add: two_level_recipes_def two_level_def two_level_choices_def
          js_variants_def ts_variants_def)
  have a: "split_on CHR '','' ''ts,vue'' = [''ts'', ''vue'']"
    "map_of two_level_choices ''ts'' = Some (Choices ts_variants)"
    "''vue'' \<in> fst ` set ts_variants"
    by (simp_all add: two_level_choices_def ts_variants_def)
  have b: "split_on CHR '','' ''py,vue'' = [''py'', ''vue'']"
    "''py'' \<notin> fst ` set two_level_choices"
    "listAnswers answering_world = [''js'', ''react'']"
    "map_of two_level_choices ''js'' = Some (Choices js_variants)"
    "''react'' \<in> fst ` set js_variants"
    by (simp_all add: two_level_choices_def js_variants_def answering_world_def)
  note t = preset_choices_and_prompts [OF r]
  have ca: "asked (snd (followBoxRecipe two_level_recipes [''proj''] (Some ''ts,vue'')
              scenario_world)) = asked scenario_world"
    using t [THEN conjunct1, of "''ts,vue''" "''ts''" "''vue''" "[]" ts_variants
               "[''proj'']" scenario_world] a
    by blast
  have cb: "asked (snd (followBoxRecipe two_level_recipes [''proj''] (Some ''py,vue'')
              answering_world))
       = asked answering_world
         @ [ListPrompt ''Which language?'' (map fst two_level_choices),
            ListPrompt ''Which framework?'' (map fst js_variants)]
      \<and> listAnswers (snd (followBoxRecipe two_level_recipes [''proj''] (Some ''py,vue'')
         answering_world)) = []"
    using t [THEN conjunct2, of "''py,vue''" "''py''" "[''vue'']" answering_world
               "''js''" "''react''" "[]" js_variants "[''proj'']"] b
    by blast
  show ?thesis using r a b ca cb by blast
qed

subsection \<open>Moving files (lines 282 to 288)\<close>

lemma moveFiles_append:
  "moveFiles d (pre @ rest) w0 =
     (case moveFiles d pre w0 of (Some e, w1) \<Rightarrow> (Some e, w1) | (None, w1) \<Rightarrow> moveFiles d rest w1)"
  by (induction pre arbitrary: w0) (auto split: prod.splits option.splits)

lemma ensureDirSync_success:
  "ensureDirSync p w = (None, w1) \<Longrightarrow>
     \<exists>t1. mkdirs p (root w) = Inr t1 \<and> w1 = w\<lparr>root := t1, calls := calls w @ [EnsureDirSync p]\<rparr>"
  by (cases "mkdirs p (root w)") (auto simp: ensureDirSync_def)

lemma renameSync_success:
  "renameSync a b w = (None, w1) \<Longrightarrow>
     \<exists>t1. rename_node a b (root w) = Inr t1 \<and> w1 = w\<lparr>root := t1, calls := calls w @ [RenameSync a b]\<rparr>"
  by (cases "rename_node a b (root w)") (auto simp: renameSync_def)

lemma moveFile_success:
  assumes "moveFile d mv w = (None, w')"
  shows "\<exists>t1. mkdirs (butlast (path_resolve d (mvTo mv))) (root w) = Inr t1
           \<and> rename_node (path_resolve d (mvFrom mv)) (path_resolve d (mvTo mv)) t1 = Inr (root w')
           \<and> calls w' = calls w @ [EnsureDirSync (butlast (path_resolve d (mvTo mv))),
                 RenameSync (path_resolve d (mvFrom mv)) (path_resolve d (mvTo mv))]"
proof -
  obtain s1 w1 where e: "ensureDirSync (butlast (path_resolve d (mvTo mv))) w = (s1, w1)"
    by (cases "ensureDirSync (butlast (path_resolve d (mvTo mv))) w")
  have s1: "s1 = None" using assms e by (cases s1) (simp_all add: moveFile_def dirname_def)
  then have r: "renameSync (path_resolve d (mvFrom mv)) (path_resolve d (mvTo mv)) w1 = (None, w')"
    using assms e by (simp add: moveFile_def dirname_def)
  from ensureDirSync_success [OF e [unfolded s1]] obtain t1 where
    t1: "mkdirs (butlast (path_resolve d (mvTo mv))) (root w) = Inr t1"
        "w1 = w\<lparr>root := t1, calls := calls w @ [EnsureDirSync (butlast (path_resolve d (mvTo mv)))]\<rparr>"
    by blast
  from renameSync_success [OF r] obtain t2 where
    t2: "rename_node (path_resolve d (mvFrom mv)) (path_resolve d (mvTo mv)) (root w1) = Inr t2"
        "w' = w1\<lparr>root := t2, calls := calls w1 @ [RenameSync (path_resolve d (mvFrom mv)) (path_resolve d (mvTo mv))]\<rparr>"
    by blast
  show ?thesis using t1 t2 by simp
qed

lemma prefix_butlast_self: "prefix b (butlast b) \<Longrightarrow> b = []"
  using prefix_length_le [of b "butlast b"] by (cases b) (auto split: if_splits)

lemma moveFile_fails_without_source:
  assumes "lookup (root w) (path_resolve d (mvFrom mv)) = None"
  shows "\<exists>e. fst (moveFile d mv w) = Some e"
proof (cases "fst (moveFile d mv w)")
  case None
  define a where "a = path_resolve d (mvFrom mv)"
  define b where "b = path_resolve d (mvTo mv)"
  from None obtain w' where "moveFile d mv w = (None, w')" by (cases "moveFile d mv w") auto
  from moveFile_success [OF this] obtain t1 where
    t1: "mkdirs (butlast b) (root w) = Inr t1" "rename_node a b t1 = Inr (root w')"
    unfolding a_def b_def by blast
  have src: "lookup t1 a \<noteq> None" using t1(2) by (auto simp: rename_node_def split: option.splits)
  have pa: "prefix a (butlast b)"
  proof (rule ccontr)
    assume "\<not> prefix a (butlast b)"
    from mkdirs_lookup_other [OF t1(1) this] src assms show False by (simp add: a_def)
  qed
  then have pab: "prefix a b" by (rule prefix_butlast)
  have "a \<noteq> b"
  proof
    assume "a = b"
    with pa have "b = []" using prefix_butlast_self by blast
    with \<open>a = b\<close> assms show False by (simp add: a_def)
  qed
  with pab src t1(2) show ?thesis by (auto simp: rename_node_def split: option.splits)
next
  case (Some e)
  then show ?thesis by blast
qed

lemma moveFile_moved:
  assumes "moveFile d mv w = (None, w')"
  defines "a \<equiv> path_resolve d (mvFrom mv)" and "b \<equiv> path_resolve d (mvTo mv)"
  shows "\<exists>es. lookup (root w') (butlast b) = Some (Dir es)"
    and "lookup (root w') b = lookup (root w) a"
    and "lookup (root w) a \<noteq> None"
    and "a \<noteq> b \<Longrightarrow> lookup (root w') a = None"
proof -
  from moveFile_success [OF assms(1)] obtain t1 where
    t1: "mkdirs (butlast b) (root w) = Inr t1" "rename_node a b t1 = Inr (root w')"
    unfolding a_def b_def by blast
  obtain src where src: "lookup t1 a = Some src"
    using t1(2) by (auto simp: rename_node_def split: option.splits)
  from mkdirs_is_dir [OF t1(1)] obtain ps where ps: "lookup t1 (butlast b) = Some (Dir ps)"
    by blast
  have same: "lookup t1 a = lookup (root w) a"
  proof (cases "a = b")
    case True
    show ?thesis
    proof (cases "b = []")
      case True
      then show ?thesis using t1(1) mkdirs_root by auto
    next
      case False
      then have "\<not> prefix b (butlast b)" using prefix_butlast_self by blast
      then show ?thesis using mkdirs_lookup_other [OF t1(1)] True by simp
    qed
  next
    case False
    from rename_node_success [OF t1(2) False] have "\<not> prefix a b" by blast
    then have "\<not> prefix a (butlast b)" using prefix_butlast by blast
    then show ?thesis using mkdirs_lookup_other [OF t1(1)] by simp
  qed
  have "lookup (root w) a = Some src" using same src by simp
  then show "lookup (root w) a \<noteq> None" by simp
  show "lookup (root w') b = lookup (root w) a"
  proof (cases "a = b")
    case True
    then have "root w' = t1" using t1(2) src by (simp add: rename_node_def)
    then show ?thesis using same True by simp
  next
    case False
    then show ?thesis using rename_node_moved(1) [OF t1(2)] same by simp
  qed
  show "lookup (root w') a = None" if "a \<noteq> b"
    using rename_node_moved(2) [OF t1(2) that] .
  show "\<exists>es. lookup (root w') (butlast b) = Some (Dir es)"
  proof (cases "a = b")
    case True
    then have "root w' = t1" using t1(2) src by (simp add: rename_node_def)
    then show ?thesis using ps by simp
  next
    case False
    from rename_node_success [OF t1(2) False] obtain src' where
      s: "root w' = put b src' (remove_at a t1)" "\<not> prefix a b" "\<not> prefix b a" by blast
    have 1: "\<not> prefix a (butlast b)" using s(2) prefix_butlast by blast
    have "b \<noteq> []" using s(3) by auto
    then have 2: "\<not> prefix b (butlast b)" using prefix_butlast_self by blast
    have "\<exists>es. lookup (remove_at a t1) (butlast b) = Some (Dir es)"
      using ps lookup_alter_dir [OF 1, of "\<lambda>_. None" t1] by (simp add: remove_at_def)
    then show ?thesis
      using s(1) lookup_alter_dir [OF 2, of "\<lambda>_. Some src'" "remove_at a t1"]
      by (simp add: put_def)
  qed
qed

text \<open>
  C8: for a move of the recipe, with \<open>a\<close> the path of \<^verbatim>\<open>from\<close> and \<open>b\<close> the path of \<^verbatim>\<open>to\<close>
  below the destination. If nothing stands at \<open>a\<close> when the move is applied, the move
  fails. If the move succeeds, something stood at \<open>a\<close>, the parent directory of \<open>b\<close> exists
  afterwards, what stood at \<open>a\<close> now stands at \<open>b\<close>, nothing stands at \<open>a\<close> any more, and the
  calls made are \<^verbatim>\<open>ensureDirSync\<close> on the parent of \<open>b\<close> followed by one \<^verbatim>\<open>renameSync\<close>.
  When the move fails, the loop over the moves and the whole reconciliation end with its
  error in the world it left: the moves after it are not applied, and it is not tried
  again.
\<close>

theorem moveFile_ensures_parent_then_renames:
  assumes "a = path_resolve d (mvFrom mv)" "b = path_resolve d (mvTo mv)"
    and "moveFile d mv w = (st, w')"
  shows "(lookup (root w) a = None \<longrightarrow> st \<noteq> None)
       \<and> (st = None \<longrightarrow>
            lookup (root w) a \<noteq> None
            \<and> (\<exists>es. lookup (root w') (dirname b) = Some (Dir es))
            \<and> lookup (root w') b = lookup (root w) a
            \<and> (a \<noteq> b \<longrightarrow> lookup (root w') a = None)
            \<and> calls w' = calls w @ [EnsureDirSync (dirname b), RenameSync a b])
       \<and> (st \<noteq> None \<and> removeExtraFiles S d w00 = (None, w0) \<and> moveFiles d pre w0 = (None, w)
            \<longrightarrow> moveFiles d (pre @ mv # post) w0 = (st, w')
                \<and> reconcile S (pre @ mv # post) d w00 = (st, w'))"
proof -
  have 1: "st \<noteq> None" if "lookup (root w) a = None"
    using moveFile_fails_without_source [of w d mv] that assms by auto
  have 2: "lookup (root w) a \<noteq> None
            \<and> (\<exists>es. lookup (root w') (dirname b) = Some (Dir es))
            \<and> lookup (root w') b = lookup (root w) a
            \<and> (a \<noteq> b \<longrightarrow> lookup (root w') a = None)
            \<and> calls w' = calls w @ [EnsureDirSync (dirname b), RenameSync a b]" if "st = None"
  proof -
    have m: "moveFile d mv w = (None, w')" using assms(3) that by simp
    show ?thesis
      using moveFile_moved [OF m] moveFile_success [OF m] assms(1,2)
      by (auto simp: dirname_def)
  qed
  have 3: "moveFiles d (pre @ mv # post) w0 = (st, w')
           \<and> reconcile S (pre @ mv # post) d w00 = (st, w')"
    if "st \<noteq> None \<and> removeExtraFiles S d w00 = (None, w0) \<and> moveFiles d pre w0 = (None, w)"
  proof -
    from that obtain e where e: "st = Some e" by auto
    have "moveFiles d (pre @ mv # post) w0 = (st, w')"
      using that assms(3) e by (simp add: moveFiles_append)
    then show ?thesis using that e by (simp add: reconcile_def)
  qed
  show ?thesis using 1 2 3 by blast
qed

theorem moveFile_ensures_parent_then_renames_witness:
  "fst (moveFile [''proj''] \<lparr>mvFrom = ''tpl.txt'', mvTo = ''src/tpl.txt''\<rparr> scenario_world) = None
   \<and> lookup (root scenario_world) [''proj'', ''tpl.txt''] \<noteq> None
   \<and> (\<exists>es. lookup (root (snd (moveFile [''proj'']
           \<lparr>mvFrom = ''tpl.txt'', mvTo = ''src/tpl.txt''\<rparr> scenario_world)))
         (dirname [''proj'', ''src'', ''tpl.txt'']) = Some (Dir es))
   \<and> lookup (root (snd (moveFile [''proj''] \<lparr>mvFrom = ''tpl.txt'', mvTo = ''src/tpl.txt''\<rparr>
         scenario_world))) [''proj'', ''src'', ''tpl.txt'']
       = lookup (root scenario_world) [''proj'', ''tpl.txt'']
   \<and> lookup (root (snd (moveFile [''proj''] \<lparr>mvFrom = ''tpl.txt'', mvTo = ''src/tpl.txt''\<rparr>
         scenario_world))) [''proj'', ''tpl.txt''] = None
   \<and> lookup (root scenario_world) [''proj'', ''missing.txt''] = None
   \<and> fst (moveFile [''proj''] \<lparr>mvFrom = ''missing.txt'', mvTo = ''lib/x.txt''\<rparr> scenario_world)
       \<noteq> None
   \<and> reconcile {''a.js'', ''a.ts'', ''tpl.txt'', ''README.md'', ''extra.md''}
        ([] @ \<lparr>mvFrom = ''missing.txt'', mvTo = ''lib/x.txt''\<rparr>
            # [\<lparr>mvFrom = ''tpl.txt'', mvTo = ''src/tpl.txt''\<rparr>])
        [''proj''] scenario_world
       = (fst (moveFile [''proj''] \<lparr>mvFrom = ''missing.txt'', mvTo = ''lib/x.txt''\<rparr>
                 scenario_world),
          snd (moveFile [''proj''] \<lparr>mvFrom = ''missing.txt'', mvTo = ''lib/x.txt''\<rparr>
                 scenario_world))"
proof -
  have a1: "[''proj'', ''tpl.txt'']
            = path_resolve [''proj''] (mvFrom \<lparr>mvFrom = ''tpl.txt'', mvTo = ''src/tpl.txt''\<rparr>)"
    by code_simp
  have b1: "[''proj'', ''src'', ''tpl.txt'']
            = path_resolve [''proj''] (mvTo \<lparr>mvFrom = ''tpl.txt'', mvTo = ''src/tpl.txt''\<rparr>)"
    by code_simp
  have s1: "fst (moveFile [''proj''] \<lparr>mvFrom = ''tpl.txt'', mvTo = ''src/tpl.txt''\<rparr>
              scenario_world) = None"
    by code_simp
  have n1: "[''proj'', ''tpl.txt''] \<noteq> [''proj'', ''src'', ''tpl.txt'']"
    by simp
  have a2: "[''proj'', ''missing.txt'']
            = path_resolve [''proj''] (mvFrom \<lparr>mvFrom = ''missing.txt'', mvTo = ''lib/x.txt''\<rparr>)"
    by code_simp
  have b2: "[''proj'', ''lib'', ''x.txt'']
            = path_resolve [''proj''] (mvTo \<lparr>mvFrom = ''missing.txt'', mvTo = ''lib/x.txt''\<rparr>)"
    by code_simp
  have m2: "lookup (root scenario_world) [''proj'', ''missing.txt''] = None"
    by code_simp
  have p2: "removeExtraFiles {''a.js'', ''a.ts'', ''tpl.txt'', ''README.md'', ''extra.md''}
              [''proj''] scenario_world = (None, scenario_world)"
    by code_simp
  have l2: "moveFiles [''proj''] [] scenario_world = (None, scenario_world)"
    by simp
  note t1 = moveFile_ensures_parent_then_renames [OF a1 b1 prod.collapse [symmetric]]
  note t2 = moveFile_ensures_parent_then_renames [OF a2 b2 prod.collapse [symmetric],
      where ?S = "{''a.js'', ''a.ts'', ''tpl.txt'', ''README.md'', ''extra.md''}"
        and ?w00.0 = scenario_world and ?w0.0 = scenario_world and ?pre = "[]"
        and ?post = "[\<lparr>mvFrom = ''tpl.txt'', mvTo = ''src/tpl.txt''\<rparr>]"]
  show ?thesis
    using s1 n1 m2 p2 l2 t1 [of scenario_world] t2
    by blast
qed

subsection \<open>Reconciliation (lines 274 to 291)\<close>

lemma remove_at_file:
  assumes "lookup (remove_at p t) x = Some (File c)"
  shows "lookup t x = Some (File c) \<and> (p \<noteq> [] \<longrightarrow> \<not> prefix p x)"
proof (cases "p = []")
  case True
  then show ?thesis using assms by (simp add: remove_at_def)
next
  case False
  have np: "\<not> prefix p x"
  proof
    assume "prefix p x"
    then obtain r where "x = p @ r" by (auto simp: prefix_def)
    then show False using lookup_remove_under [OF False, of t r] assms by simp
  qed
  then show ?thesis using assms lookup_alter_file [OF np, of "\<lambda>_. None" t c]
    by (simp add: remove_at_def)
qed

lemma prune_fold_files:
  "lookup (root (foldl (\<lambda>w' s. removeSync (g s) w') w xs)) x = Some (File c) \<Longrightarrow>
     lookup (root w) x = Some (File c) \<and> (\<forall>s \<in> set xs. g s \<noteq> [] \<longrightarrow> \<not> prefix (g s) x)"
proof (induction xs arbitrary: w)
  case Nil
  then show ?case by simp
next
  case (Cons s xs)
  from Cons.IH [of "removeSync (g s) w"] Cons.prems
  have 1: "lookup (root (removeSync (g s) w)) x = Some (File c)"
    and 2: "\<forall>s \<in> set xs. g s \<noteq> [] \<longrightarrow> \<not> prefix (g s) x" by auto
  from 1 have "lookup (remove_at (g s) (root w)) x = Some (File c)"
    by (simp add: removeSync_def)
  from remove_at_file [OF this] 2 show ?case by simp
qed

lemma prune_fold_wf:
  "wf_node (root w) \<Longrightarrow> wf_node (root (foldl (\<lambda>w' s. removeSync (g s) w') w xs))"
  by (induction xs arbitrary: w) (simp_all add: removeSync_def wf_remove_at)

lemma prune_fold_dir:
  "\<forall>s \<in> set xs. \<not> prefix (g s) d \<Longrightarrow> lookup (root w) d = Some (Dir es) \<Longrightarrow>
     \<exists>es'. lookup (root (foldl (\<lambda>w' s. removeSync (g s) w') w xs)) d = Some (Dir es')"
proof (induction xs arbitrary: w es)
  case Nil
  then show ?case by simp
next
  case (Cons s xs)
  have "\<not> prefix (g s) d" using Cons.prems by simp
  from lookup_alter_dir [OF this, of "\<lambda>_. None" "root w"] Cons.prems(2)
  obtain es1 where "lookup (root (removeSync (g s) w)) d = Some (Dir es1)"
    by (auto simp: removeSync_def remove_at_def)
  from Cons.IH [OF _ this] Cons.prems(1) show ?case by simp
qed

lemma traverseDir_success:
  "traverseDir d w = Inr fs \<Longrightarrow>
     \<exists>es. lookup (root w) d = Some (Dir es) \<and> fs = traverseDir_entries [] es"
  by (auto simp: traverseDir_def split: option.splits node.splits)

lemma removeExtraFiles_success:
  assumes "removeExtraFiles S d w = (None, w1)"
  shows "\<exists>es. lookup (root w) d = Some (Dir es)
           \<and> w1 = foldl (\<lambda>w' s. removeSync (path_resolve d s) w') w
                    (filter (\<lambda>s. s \<notin> S) (traverseDir_entries [] es))"
proof (cases "traverseDir d w")
  case (Inl e)
  then show ?thesis using assms by (simp add: removeExtraFiles_def)
next
  case (Inr fs)
  from traverseDir_success [OF Inr] obtain es where
    "lookup (root w) d = Some (Dir es)" "fs = traverseDir_entries [] es" by blast
  then show ?thesis using assms Inr by (auto simp: removeExtraFiles_def)
qed

lemma removeExtraFiles_files:
  assumes wf: "wf_node (root w)" and r: "removeExtraFiles S d w = (None, w1)"
    and f: "lookup (root w1) (d @ q) = Some (File c)"
  shows "relative q \<in> S \<and> lookup (root w) (d @ q) = Some (File c)"
proof -
  from removeExtraFiles_success [OF r] obtain es where
    es: "lookup (root w) d = Some (Dir es)"
    and w1: "w1 = foldl (\<lambda>w' s. removeSync (path_resolve d s) w') w
                    (filter (\<lambda>s. s \<notin> S) (traverseDir_entries [] es))" by blast
  from prune_fold_files [of "path_resolve d" w _ "d @ q" c] f w1
  have before: "lookup (root w) (d @ q) = Some (File c)"
    and kept: "\<forall>s \<in> set (filter (\<lambda>s. s \<notin> S) (traverseDir_entries [] es)).
                 path_resolve d s \<noteq> [] \<longrightarrow> \<not> prefix (path_resolve d s) (d @ q)"
    by auto
  from before es have fq: "lookup (Dir es) q = Some (File c)" by (simp add: lookup_append)
  then have q: "q \<noteq> []" by (cases q) auto
  have valid: "\<forall>x \<in> set (d @ q). valid_name x" using wf_lookup [OF wf before] by simp
  have listed: "relative q \<in> set (traverseDir_entries [] es)"
    using traverseDir_entries_complete [OF fq, of "[]"] by (simp add: relative_def)
  have rt: "path_resolve d (relative q) = d @ q"
    using path_resolve_relative [of q d] valid q by simp
  have "relative q \<in> S"
  proof (rule ccontr)
    assume "relative q \<notin> S"
    then have "relative q \<in> set (filter (\<lambda>s. s \<notin> S) (traverseDir_entries [] es))"
      using listed by simp
    with kept rt q show False by auto
  qed
  then show ?thesis using before by simp
qed

lemma removeExtraFiles_wf:
  "wf_node (root w) \<Longrightarrow> removeExtraFiles S d w = (None, w1) \<Longrightarrow> wf_node (root w1)"
  using removeExtraFiles_success [of S d w w1] by (auto simp: prune_fold_wf)

lemma moveFile_files:
  assumes "moveFile d mv w = (None, w')" "lookup (root w') x = Some (File c)"
  shows "prefix (path_resolve d (mvTo mv)) x \<or> lookup (root w) x = Some (File c)"
proof -
  from moveFile_success [OF assms(1)] obtain t1 where
    t1: "mkdirs (butlast (path_resolve d (mvTo mv))) (root w) = Inr t1"
        "rename_node (path_resolve d (mvFrom mv)) (path_resolve d (mvTo mv)) t1 = Inr (root w')"
    by blast
  from rename_node_files [OF t1(2) assms(2)] mkdirs_lookup_file [OF t1(1)]
  show ?thesis by auto
qed

lemma moveFile_wf:
  assumes "wf_node (root w)" "\<forall>x \<in> set d. valid_name x" "moveFile d mv w = (None, w')"
  shows "wf_node (root w')"
proof -
  from moveFile_success [OF assms(3)] obtain t1 where
    t1: "mkdirs (butlast (path_resolve d (mvTo mv))) (root w) = Inr t1"
        "rename_node (path_resolve d (mvFrom mv)) (path_resolve d (mvTo mv)) t1 = Inr (root w')"
    by blast
  have v: "\<forall>x \<in> set (path_resolve d (mvTo mv)). valid_name x"
    using path_resolve_valid [OF assms(2)] .
  then have "\<forall>x \<in> set (butlast (path_resolve d (mvTo mv))). valid_name x"
    by (auto dest: in_set_butlastD)
  from wf_mkdirs [OF assms(1) this t1(1)] have "wf_node t1" .
  from wf_rename_node [OF this v t1(2)] show ?thesis .
qed

lemma moveFiles_files:
  "moveFiles d mvs w = (None, w') \<Longrightarrow> lookup (root w') x = Some (File c) \<Longrightarrow>
     (\<exists>mv \<in> set mvs. prefix (path_resolve d (mvTo mv)) x) \<or> lookup (root w) x = Some (File c)"
proof (induction mvs arbitrary: w)
  case Nil
  then show ?case by simp
next
  case (Cons mv mvs)
  obtain st w1 where m: "moveFile d mv w = (st, w1)" by (cases "moveFile d mv w")
  then have st: "st = None" using Cons.prems(1) by (cases st) simp_all
  then have r: "moveFiles d mvs w1 = (None, w')" using Cons.prems(1) m by simp
  from Cons.IH [OF r Cons.prems(2)] moveFile_files [OF m [unfolded st]]
  show ?case by auto
qed

lemma moveFiles_wf:
  "wf_node (root w) \<Longrightarrow> \<forall>x \<in> set d. valid_name x \<Longrightarrow> moveFiles d mvs w = (None, w') \<Longrightarrow>
     wf_node (root w')"
proof (induction mvs arbitrary: w)
  case Nil
  then show ?case by simp
next
  case (Cons mv mvs)
  obtain st w1 where m: "moveFile d mv w = (st, w1)" by (cases "moveFile d mv w")
  then have st: "st = None" using Cons.prems(3) by (cases st) simp_all
  then have r: "moveFiles d mvs w1 = (None, w')" using Cons.prems(3) m by simp
  from moveFile_wf [OF Cons.prems(1,2) m [unfolded st]] have "wf_node (root w1)" .
  from Cons.IH [OF this Cons.prems(2) r] show ?case .
qed

lemma removeEmptyDirs_files_back:
  assumes wf: "wf_node (root w)" and f: "lookup (root (snd (removeEmptyDirs d isRoot w))) x = Some (File c)"
  shows "lookup (root w) x = Some (File c)"
proof (cases "lookup (root w) d")
  case None
  then show ?thesis using f by (simp add: removeEmptyDirs_def)
next
  case (Some n)
  obtain r l where r: "removeEmptyDirs_node d isRoot n = (r, l)"
    by (cases "removeEmptyDirs_node d isRoot n")
  show ?thesis
  proof (cases r)
    case None
    then have "root (snd (removeEmptyDirs d isRoot w)) = remove_at d (root w)"
      using Some r by (simp add: removeEmptyDirs_def)
    then have "lookup (remove_at d (root w)) x = Some (File c)" using f by simp
    from remove_at_file [OF this] show ?thesis by simp
  next
    case (Some n')
    then have rt: "root (snd (removeEmptyDirs d isRoot w)) = put d n' (root w)"
      using \<open>lookup (root w) d = Some n\<close> r by (simp add: removeEmptyDirs_def)
    show ?thesis
    proof (cases "prefix d x")
      case True
      then obtain q where q: "x = d @ q" by (auto simp: prefix_def)
      have par: "d = [] \<or> (\<exists>ps. lookup (root w) (butlast d) = Some (Dir ps))"
        using lookup_parent_dir [OF \<open>lookup (root w) d = Some n\<close>] by blast
      have "lookup n' q = Some (File c)"
        using f rt q lookup_put_under [OF par, of n' q] by simp
      moreover have "wf_node n" using wf_lookup [OF wf \<open>lookup (root w) d = Some n\<close>] by simp
      ultimately have "lookup n q = Some (File c)"
        using removeEmptyDirs_node_files_back(1) [of n d isRoot n' l q c] r Some by simp
      then show ?thesis using q \<open>lookup (root w) d = Some n\<close> by (simp add: lookup_append)
    next
      case False
      then show ?thesis using f rt lookup_alter_file [OF False, of "\<lambda>_. Some n'" "root w" c]
        by (simp add: put_def)
    qed
  qed
qed

lemma removeEmptyDirs_fixpoint:
  "n = Dir sub \<Longrightarrow> entries_nonempty sub \<Longrightarrow> isRoot \<or> sub \<noteq> [] \<Longrightarrow>
     removeEmptyDirs_node dir isRoot n = (Some (Dir sub), [])"
  "entries_nonempty es \<Longrightarrow> removeEmptyDirs_each dir' es = (es, [])"
proof (induction dir isRoot n and dir' es arbitrary: sub
       rule: removeEmptyDirs_node_removeEmptyDirs_each.induct)
  case (1 dir isRoot c)
  then show ?case by simp
next
  case (2 dir isRoot files)
  then show ?case by auto
next
  case (3 dir)
  then show ?case by simp
next
  case (4 dir fl n rest)
  show ?case
  proof (cases n)
    case (File c)
    then show ?thesis using 4 by simp
  next
    case (Dir sub)
    then have "removeEmptyDirs_node (dir @ [fl]) False n = (Some (Dir sub), [])"
      using 4(1) [of sub] 4(3) by simp
    then show ?thesis using 4(2) 4(3) Dir by simp
  qed
qed

text \<open>
  C1, as the code has it: in a well-formed tree, when the reconciliation has run to its
  end, every file that stands below the destination has a relative path in the set of
  paths of the manifest, or stands at or below the \<^verbatim>\<open>to\<close> path of one of its moves.
\<close>

theorem reconcile_files_in_manifest_or_moved:
  assumes wf: "wf_node (root w)" and r: "reconcile S mvs d w = (None, w')"
    and f: "lookup (root w') (d @ q) = Some (File c)"
  shows "relative q \<in> S \<or> (\<exists>mv \<in> set mvs. prefix (path_resolve d (mvTo mv)) (d @ q))"
proof -
  obtain s1 w1 where p: "removeExtraFiles S d w = (s1, w1)" by (cases "removeExtraFiles S d w")
  then have s1: "s1 = None" using r by (cases s1) (simp_all add: reconcile_def)
  obtain s2 w2 where m: "moveFiles d mvs w1 = (s2, w2)" by (cases "moveFiles d mvs w1")
  then have s2: "s2 = None" using r p s1 by (cases s2) (simp_all add: reconcile_def)
  have e: "removeEmptyDirs d True w2 = (None, w')" using r p m s1 s2 by (simp add: reconcile_def)
  from removeExtraFiles_success [OF p [unfolded s1]] obtain es where
    "lookup (root w) d = Some (Dir es)" by blast
  then have vd: "\<forall>x \<in> set d. valid_name x" using wf_lookup [OF wf] by blast
  have wf1: "wf_node (root w1)" using removeExtraFiles_wf [OF wf p [unfolded s1]] .
  have wf2: "wf_node (root w2)" using moveFiles_wf [OF wf1 vd m [unfolded s2]] .
  have f2: "lookup (root w2) (d @ q) = Some (File c)"
    using removeEmptyDirs_files_back [OF wf2, of d True "d @ q" c] e f by simp
  from moveFiles_files [OF m [unfolded s2] f2]
  show ?thesis using removeExtraFiles_files [OF wf p [unfolded s1]] by blast
qed


theorem reconcile_files_in_manifest_or_moved_witness:
  "wf_node (root scenario_world)
   \<and> reconcile {''a.ts'', ''tpl.txt'', ''README.md''} [\<lparr>mvFrom = ''tpl.txt'', mvTo = ''src/tpl.txt''\<rparr>] [''proj''] scenario_world
       = (None, snd (reconcile {''a.ts'', ''tpl.txt'', ''README.md''} [\<lparr>mvFrom = ''tpl.txt'', mvTo = ''src/tpl.txt''\<rparr>] [''proj''] scenario_world))
   \<and> lookup (root (snd (reconcile {''a.ts'', ''tpl.txt'', ''README.md''} [\<lparr>mvFrom = ''tpl.txt'', mvTo = ''src/tpl.txt''\<rparr>] [''proj''] scenario_world)))
         ([''proj''] @ [''src'', ''tpl.txt'']) = Some (File ''tpl'')
   \<and> (relative [''src'', ''tpl.txt''] \<in> {''a.ts'', ''tpl.txt'', ''README.md''}
        \<or> (\<exists>mv \<in> set [\<lparr>mvFrom = ''tpl.txt'', mvTo = ''src/tpl.txt''\<rparr>]. prefix (path_resolve [''proj''] (mvTo mv))
               ([''proj''] @ [''src'', ''tpl.txt''])))"
proof -
  have h1: "wf_node (root scenario_world)"
    by code_simp
  have h2: "reconcile {''a.ts'', ''tpl.txt'', ''README.md''} [\<lparr>mvFrom = ''tpl.txt'', mvTo = ''src/tpl.txt''\<rparr>] [''proj''] scenario_world
       = (None, snd (reconcile {''a.ts'', ''tpl.txt'', ''README.md''} [\<lparr>mvFrom = ''tpl.txt'', mvTo = ''src/tpl.txt''\<rparr>] [''proj''] scenario_world))"
    by code_simp
  have h3: "lookup (root (snd (reconcile {''a.ts'', ''tpl.txt'', ''README.md''} [\<lparr>mvFrom = ''tpl.txt'', mvTo = ''src/tpl.txt''\<rparr>] [''proj''] scenario_world)))
         ([''proj''] @ [''src'', ''tpl.txt'']) = Some (File ''tpl'')"
    by code_simp
  show ?thesis
    using h1 h2 h3 reconcile_files_in_manifest_or_moved [OF h1 h2 h3]
    by blast
qed

text \<open>
  The claim C1 as stated fails on the scenario of the specification: the run completes,
  and the file moved to \<^verbatim>\<open>src/tpl.txt\<close> remains although that path is not in the set of
  paths of the manifest.
\<close>

theorem reconcile_moved_file_counterexample:
  "fst (recipeManifest ([Plain ''a.ts'', Mv \<lparr>mvFrom = ''tpl.txt'', mvTo = ''src/tpl.txt''\<rparr>]
           @ [Plain ''README.md''])) = {''a.ts'', ''tpl.txt'', ''README.md''}
   \<and> fst (followBoxRecipe scenario_recipes [''proj''] (Some ''ts'') scenario_world) = None
   \<and> lookup (root (snd (followBoxRecipe scenario_recipes [''proj''] (Some ''ts'')
         scenario_world))) ([''proj''] @ [''src'', ''tpl.txt'']) = Some (File ''tpl'')
   \<and> relative [''src'', ''tpl.txt''] = ''src/tpl.txt''
   \<and> ''src/tpl.txt'' \<notin> {''a.ts'', ''tpl.txt'', ''README.md''}"
  by code_simp

lemma removeExtraFiles_dir:
  assumes wf: "wf_node (root w)" and r: "removeExtraFiles S d w = (None, w1)"
  shows "\<exists>es1. lookup (root w1) d = Some (Dir es1)"
proof -
  from removeExtraFiles_success [OF r] obtain es where
    es: "lookup (root w) d = Some (Dir es)"
    and w1: "w1 = foldl (\<lambda>w' s. removeSync (path_resolve d s) w') w
                    (filter (\<lambda>s. s \<notin> S) (traverseDir_entries [] es))" by blast
  have vd: "\<forall>x \<in> set d. valid_name x" "wf_node (Dir es)" using wf_lookup [OF wf es] by auto
  have "\<not> prefix (path_resolve d s) d" if "s \<in> set (traverseDir_entries [] es)" for s
  proof -
    from traverseDir_entries_sound [OF _ _ that] vd(2)
    obtain q c where q: "lookup (Dir es) q = Some (File c)" "s = relative q"
      by (auto simp: relative_def)
    then have qn: "q \<noteq> []" by (cases q) auto
    have "\<forall>x \<in> set q. valid_name x" using wf_lookup [OF vd(2) q(1)] by simp
    then have "path_resolve d s = d @ q" using path_resolve_relative [of q d] qn q(2) by simp
    then show ?thesis using qn by (simp add: prefix_def)
  qed
  then have "\<forall>s \<in> set (filter (\<lambda>s. s \<notin> S) (traverseDir_entries [] es)).
               \<not> prefix (path_resolve d s) d" by simp
  from prune_fold_dir [OF this es] w1 show ?thesis by simp
qed

text \<open>
  C2, as the code has it: for a manifest without moves, in a well-formed tree, a second
  reconciliation after a first one that ran to its end returns without an error and
  returns the world it was given: no call is added to the calls made, so nothing is
  deleted, moved or removed, and the tree is unchanged.
\<close>

theorem reconcile_without_moves_idempotent:
  assumes wf: "wf_node (root w)" and r: "reconcile S [] d w = (None, w1)"
  shows "reconcile S [] d w1 = (None, w1)"
proof -
  obtain s0 w0 where p: "removeExtraFiles S d w = (s0, w0)" by (cases "removeExtraFiles S d w")
  then have s0: "s0 = None" using r by (cases s0) (simp_all add: reconcile_def)
  have e: "removeEmptyDirs d True w0 = (None, w1)" using r p s0 by (simp add: reconcile_def)
  have wf0: "wf_node (root w0)" using removeExtraFiles_wf [OF wf p [unfolded s0]] .
  from removeExtraFiles_dir [OF wf p [unfolded s0]] obtain es0 where
    es0: "lookup (root w0) d = Some (Dir es0)" by blast
  from removeEmptyDirs_keeps_root [of w0 d es0] es0 e obtain es1 l where
    w1: "w1 = w0\<lparr>root := put d (Dir es1) (root w0), calls := calls w0 @ l\<rparr>"
    and es1: "lookup (root w1) d = Some (Dir es1)" and clean: "entries_nonempty es1"
    by auto
  obtain r0 l0 where n0: "removeEmptyDirs_node d True (Dir es0) = (r0, l0)"
    by (cases "removeEmptyDirs_node d True (Dir es0)")
  have "root w1 = put d (Dir es1) (root w0)" using w1 by simp
  moreover have "r0 = Some (Dir es1)"
  proof -
    have "lookup (root (snd (removeEmptyDirs d True w0))) d = Some (Dir es1)"
      using e es1 by simp
    moreover obtain es' where "r0 = Some (Dir es')" using n0 by (auto split: prod.splits)
    moreover from this have "root (snd (removeEmptyDirs d True w0)) = put d (Dir es') (root w0)"
      using es0 n0 by (simp add: removeEmptyDirs_def)
    moreover have "lookup (put d (Dir es') (root w0)) (d @ []) = lookup (Dir es') []"
      using lookup_parent_dir [OF es0] by (intro lookup_put_under) blast
    ultimately show ?thesis by simp
  qed
  moreover have "wf_node (Dir es1)"
    using removeEmptyDirs_node_wf(1) [of "Dir es0" d True "Dir es1" l0] n0
      wf_lookup [OF wf0 es0] calculation by simp
  moreover have "d = [] \<or> valid_name (last d)"
    using wf_lookup [OF wf0 es0] by (cases "d = []") auto
  ultimately have wf1: "wf_node (root w1)"
    using wf0 by (simp add: wf_put)
  have wfes1: "distinct (map fst es1)" "wf_entries es1" using wf_lookup [OF wf1 es1] by auto
  have all_in: "s \<in> S" if "s \<in> set (traverseDir_entries [] es1)" for s
  proof -
    from traverseDir_entries_sound [OF wfes1 that]
    obtain q c where q: "lookup (Dir es1) q = Some (File c)" "s = relative q"
      by (auto simp: relative_def)
    then have "lookup (root w1) (d @ q) = Some (File c)" using es1 by (simp add: lookup_append)
    from reconcile_files_in_manifest_or_moved [OF wf r this] q(2) show ?thesis by simp
  qed
  then have "filter (\<lambda>s. s \<notin> S) (traverseDir_entries [] es1) = []"
    by (simp add: filter_empty_conv)
  then have p1: "removeExtraFiles S d w1 = (None, w1)"
    using es1 by (simp add: removeExtraFiles_def traverseDir_def)
  have "removeEmptyDirs_node d True (Dir es1) = (Some (Dir es1), [])"
    by (rule removeEmptyDirs_fixpoint(1) [OF refl clean]) simp
  then have "removeEmptyDirs d True w1 = (None, w1)"
    using es1 put_same [OF es1] by (simp add: removeEmptyDirs_def)
  then show ?thesis using p1 by (simp add: reconcile_def)
qed

theorem reconcile_without_moves_idempotent_witness:
  "wf_node (root nested_world)
   \<and> reconcile {''a.ts''} [] [''proj''] nested_world
       = (None, snd (reconcile {''a.ts''} [] [''proj''] nested_world))
   \<and> calls (snd (reconcile {''a.ts''} [] [''proj''] nested_world))
       = [RemoveSync [''proj'', ''src'', ''tpl.txt''], RmdirSync [''proj'', ''d'', ''e''],
          RmdirSync [''proj'', ''d''], RmdirSync [''proj'', ''src'']]
   \<and> reconcile {''a.ts''} [] [''proj''] (snd (reconcile {''a.ts''} [] [''proj''] nested_world))
       = (None, snd (reconcile {''a.ts''} [] [''proj''] nested_world))"
proof -
  have h1: "wf_node (root nested_world)"
    by code_simp
  have h2: "reconcile {''a.ts''} [] [''proj''] nested_world
       = (None, snd (reconcile {''a.ts''} [] [''proj''] nested_world))"
    by code_simp
  have h3: "calls (snd (reconcile {''a.ts''} [] [''proj''] nested_world))
       = [RemoveSync [''proj'', ''src'', ''tpl.txt''], RmdirSync [''proj'', ''d'', ''e''],
          RmdirSync [''proj'', ''d''], RmdirSync [''proj'', ''src'']]"
    by code_simp
  show ?thesis
    using h1 h2 h3 reconcile_without_moves_idempotent [OF h1 h2]
    by blast
qed

text \<open>
  The claim C2 as stated fails on the scenario of the specification: the first run
  completes and moves \<^verbatim>\<open>tpl.txt\<close> to \<^verbatim>\<open>src/tpl.txt\<close>; the second run deletes the moved
  file, which is not in the set of paths, and then throws, because \<^verbatim>\<open>tpl.txt\<close> is gone.
\<close>

theorem reconcile_twice_counterexample:
  "fst (reconcile {''a.ts'', ''tpl.txt'', ''README.md''} [\<lparr>mvFrom = ''tpl.txt'', mvTo = ''src/tpl.txt''\<rparr>] [''proj''] scenario_world) = None
   \<and> lookup (root (snd (reconcile {''a.ts'', ''tpl.txt'', ''README.md''} [\<lparr>mvFrom = ''tpl.txt'', mvTo = ''src/tpl.txt''\<rparr>] [''proj''] scenario_world)))
         [''proj'', ''src'', ''tpl.txt''] = Some (File ''tpl'')
   \<and> fst (reconcile {''a.ts'', ''tpl.txt'', ''README.md''} [\<lparr>mvFrom = ''tpl.txt'', mvTo = ''src/tpl.txt''\<rparr>] [''proj''] (snd (reconcile {''a.ts'', ''tpl.txt'', ''README.md''} [\<lparr>mvFrom = ''tpl.txt'', mvTo = ''src/tpl.txt''\<rparr>] [''proj''] scenario_world)))
       = Some ENOENT
   \<and> calls (snd (reconcile {''a.ts'', ''tpl.txt'', ''README.md''} [\<lparr>mvFrom = ''tpl.txt'', mvTo = ''src/tpl.txt''\<rparr>] [''proj'']
         (snd (reconcile {''a.ts'', ''tpl.txt'', ''README.md''} [\<lparr>mvFrom = ''tpl.txt'', mvTo = ''src/tpl.txt''\<rparr>] [''proj''] scenario_world))))
       = calls (snd (reconcile {''a.ts'', ''tpl.txt'', ''README.md''} [\<lparr>mvFrom = ''tpl.txt'', mvTo = ''src/tpl.txt''\<rparr>] [''proj''] scenario_world))
         @ [RemoveSync [''proj'', ''src'', ''tpl.txt''], EnsureDirSync [''proj'', ''src'']]
   \<and> lookup (root (snd (reconcile {''a.ts'', ''tpl.txt'', ''README.md''} [\<lparr>mvFrom = ''tpl.txt'', mvTo = ''src/tpl.txt''\<rparr>] [''proj'']
         (snd (reconcile {''a.ts'', ''tpl.txt'', ''README.md''} [\<lparr>mvFrom = ''tpl.txt'', mvTo = ''src/tpl.txt''\<rparr>] [''proj''] scenario_world)))))
         [''proj'', ''src'', ''tpl.txt''] = None"
  by code_simp

subsection \<open>Merging the temporary directory into the destination (lines 115 to 144)\<close>

lemma copy_items_other:
  "x \<notin> fst ` set es \<Longrightarrow> map_of (snd (copy_items es ds)) x = map_of ds x"
proof (induction es arbitrary: ds)
  case Nil
  then show ?case by simp
next
  case (Cons e es)
  obtain item n where e: "e = (item, n)" by (cases e)
  obtain st n' where c: "copy_node n (map_of ds item) = (st, n')"
    by (cases "copy_node n (map_of ds item)")
  have ne: "x \<noteq> item" and nin: "x \<notin> fst ` set es" using Cons.prems e by auto
  show ?case
  proof (cases st)
    case None
    then show ?thesis using e c ne Cons.IH [OF nin, of "AList.update item n' ds"]
      by (simp add: update_conv')
  next
    case (Some err)
    then show ?thesis using e c ne by (simp add: update_conv')
  qed
qed

lemma copy_node_files:
  "wf_node src \<Longrightarrow> copy_node src dst = (None, n') \<Longrightarrow> lookup src q = Some (File c) \<Longrightarrow>
     lookup n' q = Some (File c)"
  "distinct (map fst es) \<Longrightarrow> wf_entries es \<Longrightarrow> copy_items es ds = (None, ds') \<Longrightarrow>
     map_of es x = Some m \<Longrightarrow> lookup m q' = Some (File c') \<Longrightarrow>
     \<exists>m'. map_of ds' x = Some m' \<and> lookup m' q' = Some (File c')"
proof (induction src dst and es ds arbitrary: n' q c and ds' x m q' c'
       rule: copy_node_copy_items.induct)
  case (1 c0)
  then show ?case by (cases q) auto
next
  case (2 c0 d)
  then show ?case by (cases q) auto
next
  case (3 c0 ds)
  then show ?case by simp
next
  case (4 es)
  obtain st ds1 where ci: "copy_items es [] = (st, ds1)" by (cases "copy_items es []")
  then have n': "st = None" "n' = Dir ds1" using 4(3) by auto
  from 4(4) obtain y q1 where q: "q = y # q1" by (cases q) auto
  then obtain m where m: "map_of es y = Some m" "lookup m q1 = Some (File c)"
    using 4(4) by (auto split: option.splits)
  from 4(1) [OF _ _ ci [unfolded n'(1)] m] 4(2)
  obtain m' where "map_of ds1 y = Some m'" "lookup m' q1 = Some (File c)" by auto
  then show ?case using n' q by simp
next
  case (5 es d)
  then show ?case by simp
next
  case (6 es ds)
  obtain st ds1 where ci: "copy_items es ds = (st, ds1)" by (cases "copy_items es ds")
  then have n': "st = None" "n' = Dir ds1" using 6(3) by auto
  from 6(4) obtain y q1 where q: "q = y # q1" by (cases q) auto
  then obtain m where m: "map_of es y = Some m" "lookup m q1 = Some (File c)"
    using 6(4) by (auto split: option.splits)
  from 6(1) [OF _ _ ci [unfolded n'(1)] m] 6(2)
  obtain m' where "map_of ds1 y = Some m'" "lookup m' q1 = Some (File c)" by auto
  then show ?case using n' q by simp
next
  case (7 ds)
  then show ?case by simp
next
  case (8 item n es ds)
  obtain st n1 where c: "copy_node n (map_of ds item) = (st, n1)"
    by (cases "copy_node n (map_of ds item)")
  then have st: "st = None" using 8(5) by (cases st) auto
  then have rest: "copy_items es (AList.update item n1 ds) = (None, ds')"
    using 8(5) c by simp
  have wf: "wf_node n" "distinct (map fst es)" "wf_entries es" "item \<notin> fst ` set es"
    using 8(3,4) by auto
  show ?case
  proof (cases "x = item")
    case True
    then have "m = n" using 8(6) by simp
    then have "lookup n1 q' = Some (File c')"
      using 8(1) [OF wf(1) c [unfolded st]] 8(7) by simp
    moreover have "map_of ds' item = map_of (AList.update item n1 ds) item"
      using copy_items_other [OF wf(4), of "AList.update item n1 ds"] rest by simp
    ultimately show ?thesis using True by (simp add: update_conv')
  next
    case False
    then have "map_of es x = Some m" using 8(6) by simp
    from 8(2) [OF c [unfolded st, symmetric] refl wf(2,3) rest this 8(7)]
    show ?thesis .
  qed
qed

lemma prefix_append_cases:
  "prefix (a @ x) (b @ y) \<Longrightarrow> prefix a b \<or> prefix b a"
proof -
  assume "prefix (a @ x) (b @ y)"
  then have "prefix a (b @ y)" by (metis append_prefixD)
  moreover have "prefix b (b @ y)" by simp
  ultimately show ?thesis using prefix_same_cases by blast
qed

lemma copySync_success:
  assumes "copySync src dest w = (None, w')"
  shows "\<exists>s t n'. lookup (root w) src = Some s \<and> \<not> prefix src dest
           \<and> mkdirs (butlast dest) (root w) = Inr t
           \<and> copy_node s (lookup t dest) = (None, n')
           \<and> root w' = put dest n' t \<and> asked w' = asked w"
proof -
  obtain s where s: "lookup (root w) src = Some s"
    using assms by (cases "lookup (root w) src") (auto simp: copySync_def)
  have np: "\<not> prefix src dest" using assms s by (auto simp: copySync_def split: if_splits)
  obtain t where t: "mkdirs (butlast dest) (root w) = Inr t"
    using assms s np by (cases "mkdirs (butlast dest) (root w)") (auto simp: copySync_def)
  obtain st n' where c: "copy_node s (lookup t dest) = (st, n')"
    by (cases "copy_node s (lookup t dest)")
  then have "st = None" "root w' = put dest n' t" "asked w' = asked w"
    using assms s np t by (auto simp: copySync_def)
  then show ?thesis using s np t c by blast
qed

lemma copySync_asked: "asked (snd (copySync src dest w)) = asked w"
  by (auto simp: copySync_def split: option.splits sum.splits prod.splits)

lemma copySync_copies:
  assumes "copySync src dest w = (None, w')" "lookup (root w) src = Some s" "wf_node s"
    and "lookup s q = Some (File c)"
  shows "lookup (root w') (dest @ q) = Some (File c)"
proof -
  from copySync_success [OF assms(1)] assms(2) obtain t n' where
    t: "mkdirs (butlast dest) (root w) = Inr t" "copy_node s (lookup t dest) = (None, n')"
       "root w' = put dest n' t" by auto
  have "lookup n' q = Some (File c)" using copy_node_files(1) [OF assms(3) t(2) assms(4)] .
  moreover have "dest = [] \<or> (\<exists>ps. lookup t (butlast dest) = Some (Dir ps))"
    using mkdirs_is_dir [OF t(1)] by blast
  ultimately show ?thesis using t(3) lookup_put_under [of dest t n' q] by simp
qed

lemma copySync_frame:
  assumes "\<not> prefix dest x" "\<not> prefix x dest"
  shows "lookup (root (snd (copySync src dest w))) x = lookup (root w) x"
proof (cases "lookup (root w) src")
  case None
  then show ?thesis by (simp add: copySync_def)
next
  case (Some s)
  show ?thesis
  proof (cases "prefix src dest")
    case True
    then show ?thesis using Some by (simp add: copySync_def)
  next
    case False
    show ?thesis
    proof (cases "mkdirs (butlast dest) (root w)")
      case (Inl e)
      then show ?thesis using Some False by (simp add: copySync_def)
    next
      case (Inr t)
      have "\<not> prefix x (butlast dest)" using assms(2) prefix_butlast by blast
      then have 1: "lookup t x = lookup (root w) x" using mkdirs_lookup_other [OF Inr] by simp
      obtain st n' where c: "copy_node s (lookup t dest) = (st, n')"
        by (cases "copy_node s (lookup t dest)")
      have "lookup (put dest n' t) x = lookup t x"
        using lookup_alter_incomparable [OF assms] by (simp add: put_def)
      then show ?thesis using Some False Inr c 1 by (simp add: copySync_def)
    qed
  qed
qed

lemma copySync_frame_file:
  assumes "\<not> prefix dest x"
  shows "(lookup (root (snd (copySync src dest w))) x = Some (File c))
         = (lookup (root w) x = Some (File c))"
proof (cases "lookup (root w) src")
  case None
  then show ?thesis by (simp add: copySync_def)
next
  case (Some s)
  show ?thesis
  proof (cases "prefix src dest")
    case True
    then show ?thesis using Some by (simp add: copySync_def)
  next
    case False
    show ?thesis
    proof (cases "mkdirs (butlast dest) (root w)")
      case (Inl e)
      then show ?thesis using Some False by (simp add: copySync_def)
    next
      case (Inr t)
      obtain st n' where c: "copy_node s (lookup t dest) = (st, n')"
        by (cases "copy_node s (lookup t dest)")
      have "(lookup (put dest n' t) x = Some (File c)) = (lookup t x = Some (File c))"
        using lookup_alter_file [OF assms] by (simp add: put_def)
      then show ?thesis using Some False Inr c mkdirs_lookup_file [OF Inr, of x c]
        by (simp add: copySync_def)
    qed
  qed
qed

lemma copyFiles_asked: "asked (snd (copyFiles tmp dest files w)) = asked w"
proof (induction files arbitrary: w)
  case Nil
  then show ?case by simp
next
  case (Cons f files)
  obtain st w1 where c: "copySync (tmp @ [f]) (dest @ [f]) w = (st, w1)"
    by (cases "copySync (tmp @ [f]) (dest @ [f]) w")
  then have "asked w1 = asked w" using copySync_asked [of "tmp @ [f]" "dest @ [f]" w] by simp
  then show ?case using c Cons.IH [of w1] by (cases st) simp_all
qed

lemma copyFiles_frame_file:
  "\<forall>g \<in> set files. \<not> prefix (dest @ [g]) x \<Longrightarrow>
     (lookup (root (snd (copyFiles tmp dest files w))) x = Some (File c))
     = (lookup (root w) x = Some (File c))"
proof (induction files arbitrary: w)
  case Nil
  then show ?case by simp
next
  case (Cons f files)
  obtain st w1 where c: "copySync (tmp @ [f]) (dest @ [f]) w = (st, w1)"
    by (cases "copySync (tmp @ [f]) (dest @ [f]) w")
  have "\<not> prefix (dest @ [f]) x" using Cons.prems by simp
  from copySync_frame_file [OF this, of "tmp @ [f]" w c] c
  have 1: "(lookup (root w1) x = Some (File c)) = (lookup (root w) x = Some (File c))" by simp
  show ?case
  proof (cases st)
    case None
    then show ?thesis using c 1 Cons.IH [of w1] Cons.prems by simp
  next
    case (Some e)
    then show ?thesis using c 1 by simp
  qed
qed

lemma copyFiles_copies:
  assumes dj: "\<not> prefix tmp dest" "\<not> prefix dest tmp"
  shows "\<forall>g n. lookup (root w) (tmp @ [g]) = Some n \<longrightarrow> wf_node n \<Longrightarrow>
         copyFiles tmp dest files w = (None, w') \<Longrightarrow> f \<in> set files \<Longrightarrow>
         lookup (root w) (tmp @ f # q) = Some (File c) \<Longrightarrow>
         lookup (root w') (dest @ f # q) = Some (File c)"
proof (induction files arbitrary: w)
  case Nil
  then show ?case by simp
next
  case (Cons f0 files)
  obtain st w1 where c: "copySync (tmp @ [f0]) (dest @ [f0]) w = (st, w1)"
    by (cases "copySync (tmp @ [f0]) (dest @ [f0]) w")
  then have st: "st = None" using Cons.prems(2) by (cases st) simp_all
  then have rest: "copyFiles tmp dest files w1 = (None, w')" using Cons.prems(2) c by simp
  have fr: "lookup (root w1) (tmp @ y) = lookup (root w) (tmp @ y)" for y
  proof -
    have "\<not> prefix (dest @ [f0]) (tmp @ y)" "\<not> prefix (tmp @ y) (dest @ [f0])"
      using dj prefix_append_cases by blast+
    from copySync_frame [OF this, of "tmp @ [f0]" w] c show ?thesis by simp
  qed
  have H1: "\<forall>g n. lookup (root w1) (tmp @ [g]) = Some n \<longrightarrow> wf_node n"
    using Cons.prems(1) fr by simp
  show ?case
  proof (cases "f \<in> set files")
    case True
    have "lookup (root w1) (tmp @ f # q) = Some (File c)" using fr Cons.prems(4) by simp
    from Cons.IH [OF H1 rest True this] show ?thesis .
  next
    case False
    then have f: "f = f0" using Cons.prems(3) by simp
    from Cons.prems(4) obtain s where s: "lookup (root w) (tmp @ [f0]) = Some s"
      "lookup s q = Some (File c)"
      using f lookup_append [of "root w" "tmp @ [f0]" q] by (auto split: option.splits)
    have "wf_node s" using Cons.prems(1) s(1) by blast
    from copySync_copies [OF c [unfolded st] s(1) this s(2)]
    have 1: "lookup (root w1) (dest @ f0 # q) = Some (File c)" by simp
    have "\<forall>g \<in> set files. \<not> prefix (dest @ [g]) (dest @ f0 # q)" using False f by auto
    from copyFiles_frame_file [OF this, of tmp w1 c] rest 1 show ?thesis using f by simp
  qed
qed

lemma ensureDirSync_asked: "asked (snd (ensureDirSync p w)) = asked w"
  by (auto simp: ensureDirSync_def split: sum.splits)

lemma copyTempIntoDestination_force_unfold:
  "copyTempIntoDestination tmpDir destination True w =
     (case ensureDirSync destination w of
        (Some e, w1) \<Rightarrow> (Some e, w1)
      | (None, w1) \<Rightarrow>
          (case readdirSync tmpDir w1 of
             Inl e \<Rightarrow> (Some e, w1)
           | Inr boxContents \<Rightarrow>
               (case readdirSync destination w1 of
                  Inl e \<Rightarrow> (Some e, w1)
                | Inr destinationContents \<Rightarrow> copyFiles tmpDir destination boxContents w1)))"
  by (simp add: copyTempIntoDestination_def Let_def split: prod.splits option.splits sum.splits)

text \<open>
  C6: with \<^verbatim>\<open>force\<close> set, \<^verbatim>\<open>copyTempIntoDestination\<close> shows no prompt. When the temporary
  directory and the destination do not contain one another, the tree is well formed and
  the call completes, every file of the temporary directory, at any depth, new or
  colliding, stands in the destination at the same relative path with the content it has
  in the temporary directory; so a top-level file present on both sides ends with the
  content of the temporary directory.
\<close>

theorem copyTempIntoDestination_force:
  "asked (snd (copyTempIntoDestination tmpDir destination True w)) = asked w
   \<and> (wf_node (root w) \<and> \<not> prefix tmpDir destination \<and> \<not> prefix destination tmpDir
       \<and> copyTempIntoDestination tmpDir destination True w = (None, w')
       \<and> lookup (root w) (tmpDir @ f # q) = Some (File c)
      \<longrightarrow> lookup (root w') (destination @ f # q) = Some (File c))"
proof -
  obtain s1 w1 where e: "ensureDirSync destination w = (s1, w1)"
    by (cases "ensureDirSync destination w")
  have a1: "asked w1 = asked w" using ensureDirSync_asked [of destination w] e by simp
  have A: "asked (snd (copyTempIntoDestination tmpDir destination True w)) = asked w"
    using e a1 copyFiles_asked [of tmpDir destination _ w1]
    by (auto simp: copyTempIntoDestination_force_unfold split: option.splits sum.splits)
  have B: "lookup (root w') (destination @ f # q) = Some (File c)"
    if h: "wf_node (root w) \<and> \<not> prefix tmpDir destination \<and> \<not> prefix destination tmpDir
       \<and> copyTempIntoDestination tmpDir destination True w = (None, w')
       \<and> lookup (root w) (tmpDir @ f # q) = Some (File c)"
  proof -
    have s1: "s1 = None" using h e
      by (cases s1) (simp_all add: copyTempIntoDestination_force_unfold)
    from ensureDirSync_success [OF e [unfolded s1]] obtain t1 where
      t1: "mkdirs destination (root w) = Inr t1" "root w1 = t1" by auto
    have fr: "lookup (root w1) (tmpDir @ y) = lookup (root w) (tmpDir @ y)" for y
    proof -
      have "\<not> prefix (tmpDir @ y) destination" using h by (metis append_prefixD)
      from mkdirs_lookup_other [OF t1(1) this] t1(2) show ?thesis by simp
    qed
    obtain boxContents where b: "readdirSync tmpDir w1 = Inr boxContents"
      using h e s1
      by (cases "readdirSync tmpDir w1") (simp_all add: copyTempIntoDestination_force_unfold)
    obtain destinationContents where d: "readdirSync destination w1 = Inr destinationContents"
      using h e s1 b
      by (cases "readdirSync destination w1")
         (simp_all add: copyTempIntoDestination_force_unfold)
    have run: "copyFiles tmpDir destination boxContents w1 = (None, w')"
      using h e s1 b d by (simp add: copyTempIntoDestination_force_unfold)
    from b obtain es where es: "lookup (root w1) tmpDir = Some (Dir es)" "boxContents = map fst es"
      by (auto simp: readdirSync_def split: option.splits node.splits)
    have f1: "lookup (root w1) (tmpDir @ f # q) = Some (File c)" using fr h by simp
    then have "lookup (Dir es) (f # q) = Some (File c)" using es(1) by (simp add: lookup_append)
    then have "map_of es f \<noteq> None" by (auto split: option.splits)
    then have fin: "f \<in> set boxContents" using es(2) by (simp add: map_of_eq_None_iff)
    have H: "\<forall>g n. lookup (root w1) (tmpDir @ [g]) = Some n \<longrightarrow> wf_node n"
      using fr wf_lookup h by metis
    from copyFiles_copies [of tmpDir destination w1 boxContents w' f q c] h H run fin f1
    show ?thesis by blast
  qed
  show ?thesis using A B by blast
qed

theorem copyTempIntoDestination_force_witness:
  "wf_node (root merge_world)
   \<and> \<not> prefix [''t''] [''w'', ''proj''] \<and> \<not> prefix [''w'', ''proj''] [''t'']
   \<and> copyTempIntoDestination [''t''] [''w'', ''proj''] True merge_world
       = (None, snd (copyTempIntoDestination [''t''] [''w'', ''proj''] True merge_world))
   \<and> lookup (root merge_world) ([''t''] @ ''a.txt'' # []) = Some (File ''new'')
   \<and> lookup (root merge_world) ([''w'', ''proj''] @ ''a.txt'' # []) = Some (File ''old'')
   \<and> lookup (root (snd (copyTempIntoDestination [''t''] [''w'', ''proj''] True merge_world)))
         ([''w'', ''proj''] @ ''a.txt'' # []) = Some (File ''new'')
   \<and> asked (snd (copyTempIntoDestination [''t''] [''w'', ''proj''] True merge_world))
       = asked merge_world"
proof -
  have h: "wf_node (root merge_world)
     \<and> \<not> prefix [''t''] [''w'', ''proj''] \<and> \<not> prefix [''w'', ''proj''] [''t'']
     \<and> copyTempIntoDestination [''t''] [''w'', ''proj''] True merge_world
         = (None, snd (copyTempIntoDestination [''t''] [''w'', ''proj''] True merge_world))
     \<and> lookup (root merge_world) ([''t''] @ ''a.txt'' # []) = Some (File ''new'')"
    by code_simp
  have o: "lookup (root merge_world) ([''w'', ''proj''] @ ''a.txt'' # []) = Some (File ''old'')"
    by code_simp
  show ?thesis
    using h o
      copyTempIntoDestination_force [of "[''t'']" "[''w'', ''proj'']" merge_world
        "snd (copyTempIntoDestination [''t''] [''w'', ''proj''] True merge_world)"
        "''a.txt''" "[]" "''new''"]
    by blast
qed

text \<open>
  C7 does not hold on the code. \<^verbatim>\<open>promptOverwrites\<close> removes an accepted entry by its bare
  name, which is a path relative to the working directory, not to the destination. In
  the merge above the accepted name \<^verbatim>\<open>proj\<close> is, from \<^verbatim>\<open>/w\<close>, the destination itself:
  the call completes, both prompts are shown, the destination is removed with the entry
  \<^verbatim>\<open>a.txt\<close> whose overwrite was declined, and \<^verbatim>\<open>a.txt\<close> does not exist afterwards.
\<close>

theorem copyTempIntoDestination_declined_entry_lost:
  "lookup (root merge_world) [''w'', ''proj'', ''a.txt''] = Some (File ''old'')
   \<and> confirmAnswers merge_world = [False, True]
   \<and> fst (copyTempIntoDestination [''t''] [''w'', ''proj''] False merge_world) = None
   \<and> asked (snd (copyTempIntoDestination [''t''] [''w'', ''proj''] False merge_world))
       = [ConfirmPrompt ''Overwrite a.txt?'', ConfirmPrompt ''Overwrite proj?'']
   \<and> calls (snd (copyTempIntoDestination [''t''] [''w'', ''proj''] False merge_world))
       = [EnsureDirSync [''w'', ''proj''], RemoveSync [''w'', ''proj''],
          CopySync [''t'', ''proj''] [''w'', ''proj'', ''proj'']]
   \<and> lookup (root (snd (copyTempIntoDestination [''t''] [''w'', ''proj''] False merge_world)))
         [''w'', ''proj'', ''a.txt''] = None"
  by code_simp

lemma mkdirs_existing: "lookup t p = Some (Dir ds) \<Longrightarrow> mkdirs p t = Inr t"
proof (induction p t rule: mkdirs.induct)
  case (1 es)
  then show ?case by simp
next
  case (2 c)
  then show ?case by simp
next
  case (3 x p c)
  then show ?case by simp
next
  case (4 x p es)
  then obtain m where m: "map_of es x = Some m" "lookup m p = Some (Dir ds)"
    by (auto split: option.splits)
  then have "mkdirs p m = Inr m" using 4(1) by simp
  then show ?case using m by (simp add: update_triv)
qed

lemma accepted_simps:
  "accepted [] answers = []"
  "accepted colls [] = []"
  "accepted (f # colls) (a # answers) = (if a then f # accepted colls answers else accepted colls answers)"
  by (simp_all add: accepted_def)

lemma promptOverwrites_loop_effect:
  "promptOverwrites_loop colls acc w = (r, w2) \<Longrightarrow>
     cwd w2 = cwd w
     \<and> (\<forall>ov. r = Inr ov \<longrightarrow> ov = acc @ accepted colls (confirmAnswers w))
     \<and> (\<forall>x. (\<forall>g \<in> set (accepted colls (confirmAnswers w)).
                 \<not> prefix (cwd w @ [g]) x \<and> \<not> prefix x (cwd w @ [g]))
              \<longrightarrow> lookup (root w2) x = lookup (root w) x)"
proof (induction colls arbitrary: acc w)
  case Nil
  then show ?case by (auto simp: accepted_simps)
next
  case (Cons f colls)
  show ?case
  proof (cases "confirmAnswers w")
    case Nil
    then show ?thesis using Cons.prems by (auto simp: inquirer_confirm_def accepted_simps)
  next
    case (Cons a answers)
    let ?w1 = "w\<lparr>asked := asked w @ [ConfirmPrompt (''Overwrite '' @ f @ ''?'')],
                  confirmAnswers := answers\<rparr>"
    have ic: "inquirer_confirm (''Overwrite '' @ f @ ''?'') w = (Inr a, ?w1)"
      using Cons by (simp add: inquirer_confirm_def)
    show ?thesis
    proof (cases a)
      case True
      let ?w2 = "removeSync (cwd ?w1 @ [f]) ?w1"
      have run: "promptOverwrites_loop colls (acc @ [f]) ?w2 = (r, w2)"
        using Cons.prems ic True by simp
      have c2: "cwd ?w2 = cwd w" "confirmAnswers ?w2 = answers"
        by (simp_all add: removeSync_def)
      from Cons.IH [OF run] c2
      have ih: "cwd w2 = cwd w"
        "\<forall>ov. r = Inr ov \<longrightarrow> ov = (acc @ [f]) @ accepted colls answers"
        "\<forall>x. (\<forall>g \<in> set (accepted colls answers).
                 \<not> prefix (cwd w @ [g]) x \<and> \<not> prefix x (cwd w @ [g]))
              \<longrightarrow> lookup (root w2) x = lookup (root ?w2) x"
        by simp_all
      have fr: "lookup (root ?w2) x = lookup (root w) x"
        if "\<not> prefix (cwd w @ [f]) x \<and> \<not> prefix x (cwd w @ [f])" for x
        using that lookup_alter_incomparable [of "cwd w @ [f]" x "\<lambda>_. None" "root w"]
        by (simp add: removeSync_def remove_at_def)
      show ?thesis using ih fr Cons True by (simp add: accepted_simps)
    next
      case False
      have run: "promptOverwrites_loop colls acc ?w1 = (r, w2)"
        using Cons.prems ic False by simp
      from Cons.IH [OF run] show ?thesis using Cons False by (simp add: accepted_simps)
    qed
  qed
qed

lemma copyFiles_frame:
  "\<forall>g \<in> set files. \<not> prefix (dest @ [g]) x \<and> \<not> prefix x (dest @ [g]) \<Longrightarrow>
     lookup (root (snd (copyFiles tmp dest files w))) x = lookup (root w) x"
proof (induction files arbitrary: w)
  case Nil
  then show ?case by simp
next
  case (Cons f files)
  obtain st w1 where c: "copySync (tmp @ [f]) (dest @ [f]) w = (st, w1)"
    by (cases "copySync (tmp @ [f]) (dest @ [f]) w")
  have "\<not> prefix (dest @ [f]) x" "\<not> prefix x (dest @ [f])" using Cons.prems by simp_all
  from copySync_frame [OF this, of "tmp @ [f]" w] c
  have 1: "lookup (root w1) x = lookup (root w) x" by simp
  show ?case
  proof (cases st)
    case None
    then show ?thesis using c 1 Cons.IH [of w1] Cons.prems by simp
  next
    case (Some e)
    then show ?thesis using c 1 by simp
  qed
qed

lemma sibling_paths:
  "g \<noteq> a \<Longrightarrow> \<not> prefix (d @ [g]) (d @ a # q) \<and> \<not> prefix (d @ a # q) (d @ [g])"
  by simp

text \<open>
  When the working directory is the destination, the bare name does name the entry of the
  destination, and an entry of the destination that the user did not accept to overwrite
  is left as it was, with everything below it, in every outcome of the call.
\<close>

lemma declined_entry_unchanged:
  assumes cwd: "cwd w = destination"
    and tmp: "lookup (root w) tmpDir = Some (Dir es)"
    and dst: "lookup (root w) destination = Some (Dir ds)"
    and a: "a \<in> fst ` set ds"
    and declined: "a \<notin> set (accepted (filter (\<lambda>f. f \<in> fst ` set ds) (map fst es))
                              (confirmAnswers w))"
  shows "lookup (root (snd (copyTempIntoDestination tmpDir destination False w)))
           (destination @ a # q)
         = lookup (root w) (destination @ a # q)"
proof -
  let ?w1 = "w\<lparr>root := root w, calls := calls w @ [EnsureDirSync destination]\<rparr>"
  let ?colls = "filter (\<lambda>f. f \<in> fst ` set ds) (map fst es)"
  let ?new = "filter (\<lambda>f. f \<notin> fst ` set ds) (map fst es)"
  have e: "ensureDirSync destination w = (None, ?w1)"
    using mkdirs_existing [OF dst] by (simp add: ensureDirSync_def)
  have rd: "readdirSync tmpDir ?w1 = Inr (map fst es)" "readdirSync destination ?w1 = Inr (map fst ds)"
    using tmp dst by (simp_all add: readdirSync_def)
  obtain r w2 where p: "promptOverwrites_loop ?colls [] ?w1 = (r, w2)"
    by (cases "promptOverwrites_loop ?colls [] ?w1")
  from promptOverwrites_loop_effect [OF p]
  have eff: "\<forall>ov. r = Inr ov \<longrightarrow> ov = accepted ?colls (confirmAnswers w)"
    "\<forall>x. (\<forall>g \<in> set (accepted ?colls (confirmAnswers w)).
                 \<not> prefix (destination @ [g]) x \<and> \<not> prefix x (destination @ [g]))
              \<longrightarrow> lookup (root w2) x = lookup (root w) x"
    using cwd by simp_all
  have sib: "\<forall>g \<in> set (accepted ?colls (confirmAnswers w)).
               \<not> prefix (destination @ [g]) (destination @ a # q)
               \<and> \<not> prefix (destination @ a # q) (destination @ [g])"
  proof
    fix g assume "g \<in> set (accepted ?colls (confirmAnswers w))"
    then have "g \<noteq> a" using declined by auto
    then show "\<not> prefix (destination @ [g]) (destination @ a # q)
               \<and> \<not> prefix (destination @ a # q) (destination @ [g])"
      by (rule sibling_paths)
  qed
  have 2: "lookup (root w2) (destination @ a # q) = lookup (root w) (destination @ a # q)"
    using eff(2) sib by (elim allE [of _ "destination @ a # q"]) (rule mp)
  show ?thesis
  proof (cases r)
    case (Inl err)
    then show ?thesis using e rd p 2
      by (simp add: copyTempIntoDestination_def promptOverwrites_def)
  next
    case (Inr ov)
    then have ov: "ov = accepted ?colls (confirmAnswers w)" using eff(1) by simp
    have na: "\<forall>g \<in> set (?new @ ov). g \<noteq> a" using a declined ov by auto
    have "\<forall>g \<in> set (?new @ ov). \<not> prefix (destination @ [g]) (destination @ a # q)
                 \<and> \<not> prefix (destination @ a # q) (destination @ [g])"
    proof
      fix g assume "g \<in> set (?new @ ov)"
      then have "g \<noteq> a" using na by blast
      then show "\<not> prefix (destination @ [g]) (destination @ a # q)
                 \<and> \<not> prefix (destination @ a # q) (destination @ [g])"
        by (rule sibling_paths)
    qed
    from copyFiles_frame [OF this, of tmpDir w2]
    have "lookup (root (snd (copyFiles tmpDir destination (?new @ ov) w2))) (destination @ a # q)
          = lookup (root w2) (destination @ a # q)" .
    then show ?thesis using e rd p Inr 2
      by (simp add: copyTempIntoDestination_def promptOverwrites_def)
  qed
qed

subsection \<open>The manifest (lines 226 to 228 and 263 to 272)\<close>

lemma recipeManifest_step_simps:
  "recipeManifest_step (S, ms) (Plain s) = (insert s S, ms)"
  "recipeManifest_step (S, ms) (Mv mv) = (insert (mvFrom mv) S, ms @ [mv])"
  by (simp_all add: recipeManifest_step_def)

lemma recipeManifest_foldl:
  "foldl recipeManifest_step (S, ms) fs =
     (S \<union> {s. Plain s \<in> set fs} \<union> {mvFrom mv |mv. Mv mv \<in> set fs}, ms @ [mv. Mv mv \<leftarrow> fs])"
proof (induction fs arbitrary: S ms)
  case Nil
  then show ?case by simp
next
  case (Cons f fs)
  show ?case
  proof (cases f)
    case (Plain s)
    have "insert s S \<union> {s. Plain s \<in> set fs} \<union> {mvFrom mv |mv. Mv mv \<in> set fs}
          = S \<union> {s'. Plain s' \<in> set (f # fs)} \<union> {mvFrom mv |mv. Mv mv \<in> set (f # fs)}"
      using Plain by auto
    then show ?thesis using Plain by (simp add: Cons.IH recipeManifest_step_simps)
  next
    case (Mv mv)
    have "insert (mvFrom mv) S \<union> {s. Plain s \<in> set fs} \<union> {mvFrom mv |mv. Mv mv \<in> set fs}
          = S \<union> {s'. Plain s' \<in> set (f # fs)} \<union> {mvFrom mv |mv. Mv mv \<in> set (f # fs)}"
      using Mv by auto
    then show ?thesis using Mv by (simp add: Cons.IH recipeManifest_step_simps)
  qed
qed

text \<open>
  C4: when the loop reaches a leaf, the recipe files are the leaf followed by the common
  files; the set of paths built from them is the union of the plain entries and of the
  \<^verbatim>\<open>from\<close> fields of the moves, and the list of moves holds exactly the moves, in the
  order in which they stand in that concatenation.
\<close>

theorem manifest_of_leaf_and_common:
  "common r = Some c \<Longrightarrow>
     locateRecipe r optionArr useOption (Some (Files leaf)) counter w = (Inr (leaf @ c), w)
     \<and> recipeManifest (leaf @ c) =
         ({s. Plain s \<in> set (leaf @ c)} \<union> {mvFrom mv |mv. Mv mv \<in> set (leaf @ c)},
          [mv. Mv mv \<leftarrow> leaf @ c])"
  using recipeManifest_foldl [of "{}" "[]" "leaf @ c"]
  by (simp add: recipeManifest_def locateRecipe_Files)

theorem manifest_of_leaf_and_common_witness:
  "common scenario_recipes = Some [Plain ''README.md'']
   \<and> locateRecipe scenario_recipes [''ts''] True
        (Some (Files [Plain ''a.ts'', Mv \<lparr>mvFrom = ''tpl.txt'', mvTo = ''src/tpl.txt''\<rparr>])) 1
        scenario_world
      = (Inr [Plain ''a.ts'', Mv \<lparr>mvFrom = ''tpl.txt'', mvTo = ''src/tpl.txt''\<rparr>,
              Plain ''README.md''], scenario_world)
   \<and> recipeManifest [Plain ''a.ts'', Mv \<lparr>mvFrom = ''tpl.txt'', mvTo = ''src/tpl.txt''\<rparr>,
        Plain ''README.md'']
      = ({''a.ts'', ''tpl.txt'', ''README.md''}, [\<lparr>mvFrom = ''tpl.txt'', mvTo = ''src/tpl.txt''\<rparr>])"
proof -
  have h: "common scenario_recipes = Some [Plain ''README.md'']"
    by (simp add: scenario_recipes_def)
  have e: "{s. Plain s \<in> set ([Plain ''a.ts'', Mv \<lparr>mvFrom = ''tpl.txt'', mvTo = ''src/tpl.txt''\<rparr>]
              @ [Plain ''README.md''])}
           \<union> {mvFrom mv |mv. Mv mv \<in> set ([Plain ''a.ts'',
                Mv \<lparr>mvFrom = ''tpl.txt'', mvTo = ''src/tpl.txt''\<rparr>] @ [Plain ''README.md''])}
           = {''a.ts'', ''tpl.txt'', ''README.md''}"
    by auto
  show ?thesis
    using h e manifest_of_leaf_and_common [OF h, of "[''ts'']" True
        "[Plain ''a.ts'', Mv \<lparr>mvFrom = ''tpl.txt'', mvTo = ''src/tpl.txt''\<rparr>]" 1 scenario_world]
    by simp
qed

subsection \<open>No recipe (lines 216 to 218)\<close>

text \<open>
  C9: when \<^verbatim>\<open>recipes\<close> is the empty object, \<^verbatim>\<open>followBoxRecipe\<close> returns at once, without
  an error: no prompt is shown, no file system call is made, and the world it returns is
  the world it was given, whatever the destination and the option are.
\<close>

theorem followBoxRecipe_no_recipes:
  "followBoxRecipe \<lparr>specs = None, common = None, prompts = None\<rparr> destination option w
     = (None, w)"
  by (simp add: followBoxRecipe_def recipes_keys_def)

theorem followBoxRecipe_no_recipes_witness:
  "followBoxRecipe \<lparr>specs = None, common = None, prompts = None\<rparr> [''proj''] (Some ''ts'')
     scenario_world = (None, scenario_world)"
  using followBoxRecipe_no_recipes [of "[''proj'']" "Some ''ts''" scenario_world]
  by simp

end
